theory Spec2Isabelle
  imports Main "HOL-Library.Sublist"
begin

section \<open>JavaScript strings and values\<close>

text \<open>
  A JavaScript string is modelled as a \<^typ>\<open>string\<close> holding its UTF-8 bytes; every
  string the client itself writes is ASCII. \<open>startsWith\<close>, \<open>includes\<close>, \<open>toLowerCase\<close>
  and \<open>join\<close> are the methods of \<open>String.prototype\<close> and \<open>Array.prototype\<close> that the
  client calls.
\<close>

definition startsWith :: "string \<Rightarrow> string \<Rightarrow> bool" where
  "startsWith s p = prefix p s"

fun str_includes :: "string \<Rightarrow> string \<Rightarrow> bool" where
  "str_includes [] sub = (sub = [])"
| "str_includes (c # cs) sub = (prefix sub (c # cs) \<or> str_includes cs sub)"

definition lower_char :: "char \<Rightarrow> char" where
  "lower_char c =
     (if (65::nat) \<le> of_char c \<and> of_char c \<le> (90::nat)
      then char_of (of_char c + (32::nat)) else c)"

text \<open>
  \<open>toLowerCase\<close> maps the ASCII capitals to their small letters. Two code points outside
  ASCII have a lower case that holds an ASCII letter: U+212A KELVIN SIGN (the bytes
  \<open>E2 84 AA\<close>) becomes \<open>k\<close>, and U+0130 (the bytes \<open>C4 B0\<close>) becomes \<open>i\<close> followed by
  U+0307 (the bytes \<open>CC 87\<close>). The lower case of every other code point outside ASCII
  lies outside ASCII again; the model keeps the bytes of such a code point, which no
  search for an ASCII word in the result can tell from its lower case.
\<close>

fun toLowerCase :: "string \<Rightarrow> string" where
  "toLowerCase [] = []"
| "toLowerCase [a] = [lower_char a]"
| "toLowerCase [a, b] =
     (if a = CHR 0xC4 \<and> b = CHR 0xB0 then [CHR ''i'', CHR 0xCC, CHR 0x87]
      else lower_char a # toLowerCase [b])"
| "toLowerCase (a # b # c # cs) =
     (if a = CHR 0xE2 \<and> b = CHR 0x84 \<and> c = CHR 0xAA then CHR ''k'' # toLowerCase cs
      else if a = CHR 0xC4 \<and> b = CHR 0xB0 then [CHR ''i'', CHR 0xCC, CHR 0x87] @ toLowerCase (c # cs)
      else lower_char a # toLowerCase (b # c # cs))"

fun join :: "string \<Rightarrow> string list \<Rightarrow> string" where
  "join sep [] = []"
| "join sep [x] = x"
| "join sep (x # y # ys) = x @ sep @ join sep (y # ys)"

text \<open>
  The values a \<open>Record<string, any>\<close> or a decoded JSON body can hold. Numbers are
  restricted to the integers (a page number, a status code, an id); an object is the list
  of its own enumerable entries in \<open>Object.entries\<close> order, with distinct keys.
\<close>

datatype js_value =
    JUndefined
  | JNull
  | JBool bool
  | JNum int
  | JStr string
  | JArr "js_value list"
  | JObj "(string \<times> js_value) list"

fun digits :: "nat \<Rightarrow> string" where
  "digits n =
     (if n < 10 then [char_of (48 + n)]
      else digits (n div 10) @ [char_of (48 + n mod 10)])"

definition show_int :: "int \<Rightarrow> string" where
  "show_int i = (if i < 0 then CHR ''-'' # digits (nat (- i)) else digits (nat i))"

text \<open>\<open>String(v)\<close>: the conversion \<open>ToString\<close> of the language, on plain data.\<close>

fun to_String :: "js_value \<Rightarrow> string" where
  "to_String JUndefined = ''undefined''"
| "to_String JNull = ''null''"
| "to_String (JBool b) = (if b then ''true'' else ''false'')"
| "to_String (JNum n) = show_int n"
| "to_String (JStr s) = s"
| "to_String (JArr xs) =
     join '','' (map (\<lambda>x. if x = JUndefined \<or> x = JNull then [] else to_String x) xs)"
| "to_String (JObj kvs) = ''[object Object]''"

text \<open>The truthiness test behind \<open>||\<close>, \<open>!\<close> and \<open>if\<close>.\<close>

fun truthy :: "js_value \<Rightarrow> bool" where
  "truthy JUndefined = False"
| "truthy JNull = False"
| "truthy (JBool b) = b"
| "truthy (JNum n) = (n \<noteq> 0)"
| "truthy (JStr s) = (s \<noteq> [])"
| "truthy (JArr xs) = True"
| "truthy (JObj kvs) = True"

text \<open>
  \<open>v?.k\<close> for a property name \<open>k\<close> that only a decoded JSON object can carry
  (\<open>message\<close>, \<open>data\<close>, \<open>params\<close>): \<open>undefined\<close> on everything else.
\<close>

fun get_prop :: "js_value \<Rightarrow> string \<Rightarrow> js_value" where
  "get_prop (JObj kvs) k = (case map_of kvs k of Some v \<Rightarrow> v | None \<Rightarrow> JUndefined)"
| "get_prop v k = JUndefined"

subsection \<open>\<open>encodeURIComponent\<close>\<close>

text \<open>
  Every byte outside \<open>A-Z a-z 0-9 - _ . ! ~ * ' ( )\<close> is written as \<open>%XX\<close> with
  capital hexadecimal digits.
\<close>

definition uri_unreserved :: "char \<Rightarrow> bool" where
  "uri_unreserved c =
     (c \<in> set ''ABCDEFGHIJKLMNOPQRSTUVWXYZabcdefghijklmnopqrstuvwxyz0123456789-_.!~*()''
      \<or> c = CHR 0x27)"

definition hex_digit :: "nat \<Rightarrow> char" where
  "hex_digit n = ''0123456789ABCDEF'' ! (n mod 16)"

definition encode_char :: "char \<Rightarrow> string" where
  "encode_char c =
     (if uri_unreserved c then [c]
      else [CHR ''%'', hex_digit (of_char c div 16), hex_digit (of_char c mod 16)])"

definition encodeURIComponent :: "string \<Rightarrow> string" where
  "encodeURIComponent s = concat (map encode_char s)"

subsection \<open>\<open>JSON.stringify\<close>\<close>

definition json_escape_char :: "char \<Rightarrow> string" where
  "json_escape_char c =
     (if c = CHR 0x22 then [CHR 0x5C, CHR 0x22]
      else if c = CHR 0x5C then [CHR 0x5C, CHR 0x5C]
      else if c = CHR 0x08 then [CHR 0x5C, CHR ''b'']
      else if c = CHR 0x09 then [CHR 0x5C, CHR ''t'']
      else if c = CHR 0x0A then [CHR 0x5C, CHR ''n'']
      else if c = CHR 0x0C then [CHR 0x5C, CHR ''f'']
      else if c = CHR 0x0D then [CHR 0x5C, CHR ''r'']
      else if (of_char c :: nat) < 32
        then [CHR 0x5C, CHR ''u'', CHR ''0'', CHR ''0'',
              lower_char (hex_digit (of_char c div 16)), lower_char (hex_digit (of_char c mod 16))]
      else [c])"

definition json_quote :: "string \<Rightarrow> string" where
  "json_quote s = [CHR 0x22] @ concat (map json_escape_char s) @ [CHR 0x22]"

fun stringify_value :: "js_value \<Rightarrow> string" where
  "stringify_value JUndefined = ''null''"
| "stringify_value JNull = ''null''"
| "stringify_value (JBool b) = (if b then ''true'' else ''false'')"
| "stringify_value (JNum n) = show_int n"
| "stringify_value (JStr s) = json_quote s"
| "stringify_value (JArr xs) = ''['' @ join '','' (map stringify_value xs) @ '']''"
| "stringify_value (JObj kvs) =
     ''{'' @ join '',''
        (map (\<lambda>kv. json_quote (fst kv) @ '':'' @ stringify_value (snd kv))
           (filter (\<lambda>kv. snd kv \<noteq> JUndefined) kvs)) @ ''}''"

text \<open>\<open>JSON.stringify(v)\<close> is \<open>undefined\<close> for \<open>undefined\<close> and a string otherwise.\<close>

definition JSON_stringify :: "js_value \<Rightarrow> string option" where
  "JSON_stringify v = (if v = JUndefined then None else Some (stringify_value v))"

subsection \<open>\<open>parseInt(s, 10)\<close>\<close>

text \<open>
  Leading white space is skipped (the ASCII white space: a header value or an
  environment variable read here holds no other), one sign is read, then the longest run
  of decimal digits; no digit gives \<open>NaN\<close>. The number is the exact value of the digits
  below \<open>2^53\<close>, which 15 digits never reach.
\<close>

datatype parsed_number = NaN | Num int

definition is_space :: "char \<Rightarrow> bool" where
  "is_space c = (c \<in> set [CHR 0x20, CHR 0x09, CHR 0x0A, CHR 0x0B, CHR 0x0C, CHR 0x0D])"

definition is_digit :: "char \<Rightarrow> bool" where
  "is_digit c = ((48::nat) \<le> of_char c \<and> of_char c \<le> (57::nat))"

definition digit_value :: "char \<Rightarrow> nat" where
  "digit_value c = of_char c - 48"

definition decimal :: "string \<Rightarrow> nat" where
  "decimal ds = foldl (\<lambda>acc c. 10 * acc + digit_value c) 0 ds"

definition parse_digits :: "string \<Rightarrow> nat option" where
  "parse_digits s =
     (let ds = takeWhile is_digit s in if ds = [] then None else Some (decimal ds))"

definition parseInt :: "string \<Rightarrow> parsed_number" where
  "parseInt s =
     (case dropWhile is_space s of
        [] \<Rightarrow> NaN
      | c # cs \<Rightarrow>
          if c = CHR ''-'' then (case parse_digits cs of None \<Rightarrow> NaN | Some n \<Rightarrow> Num (- int n))
          else if c = CHR ''+'' then (case parse_digits cs of None \<Rightarrow> NaN | Some n \<Rightarrow> Num (int n))
          else (case parse_digits (c # cs) of None \<Rightarrow> NaN | Some n \<Rightarrow> Num (int n)))"

section \<open>Errors\<close>

text \<open>
  Whatever a \<open>throw\<close> or a rejected promise can carry: an instance of
  \<open>WooCommerceError\<close> or of one of its subclasses (the class, then the fields \<open>message\<close>,
  \<open>statusCode\<close>, \<open>response\<close>, \<open>errors\<close>, \<open>retryAfter\<close>, \<open>originalError\<close>; a field a class
  does not have is \<open>undefined\<close>), another instance of \<open>Error\<close> (its \<open>name\<close> and
  \<open>message\<close>), or a value that is not an \<open>Error\<close>.
\<close>

datatype error_class =
    WooCommerceError
  | WooCommerceAuthenticationError
  | WooCommerceAuthorizationError
  | WooCommerceNotFoundError
  | WooCommerceValidationError
  | WooCommerceRateLimitError
  | WooCommerceNetworkError
  | WooCommerceAPIError

datatype thrown =
    WooError (cls: error_class) (message: string) (statusCode: "int option")
      (response: js_value) (errors: js_value) (retryAfter: "parsed_number option")
      (originalError: "thrown option")
  | JsError (name: string) (message: string)
  | NonError (thrown_value: js_value)

fun instanceof_Error :: "thrown \<Rightarrow> bool" where
  "instanceof_Error (NonError v) = False"
| "instanceof_Error e = True"

fun instanceof_WooCommerceError :: "thrown \<Rightarrow> bool" where
  "instanceof_WooCommerceError (WooError c m sc r es ra oe) = True"
| "instanceof_WooCommerceError e = False"

text \<open>The constructors of the error classes; each sets \<open>name\<close> to the name of its class.\<close>

fun class_name :: "error_class \<Rightarrow> string" where
  "class_name WooCommerceError = ''WooCommerceError''"
| "class_name WooCommerceAuthenticationError = ''WooCommerceAuthenticationError''"
| "class_name WooCommerceAuthorizationError = ''WooCommerceAuthorizationError''"
| "class_name WooCommerceNotFoundError = ''WooCommerceNotFoundError''"
| "class_name WooCommerceValidationError = ''WooCommerceValidationError''"
| "class_name WooCommerceRateLimitError = ''WooCommerceRateLimitError''"
| "class_name WooCommerceNetworkError = ''WooCommerceNetworkError''"
| "class_name WooCommerceAPIError = ''WooCommerceAPIError''"

fun error_name :: "thrown \<Rightarrow> string" where
  "error_name (WooError c m sc r es ra oe) = class_name c"
| "error_name (JsError n m) = n"
| "error_name (NonError v) = []"

definition new_WooCommerceError :: "string \<Rightarrow> int option \<Rightarrow> js_value \<Rightarrow> thrown" where
  "new_WooCommerceError m sc r = WooError WooCommerceError m sc r JUndefined None None"

definition new_WooCommerceAuthenticationError :: "string \<Rightarrow> js_value \<Rightarrow> thrown" where
  "new_WooCommerceAuthenticationError m r =
     WooError WooCommerceAuthenticationError m (Some 401) r JUndefined None None"

definition new_WooCommerceAuthorizationError :: "string \<Rightarrow> js_value \<Rightarrow> thrown" where
  "new_WooCommerceAuthorizationError m r =
     WooError WooCommerceAuthorizationError m (Some 403) r JUndefined None None"

definition new_WooCommerceNotFoundError :: "string \<Rightarrow> js_value \<Rightarrow> thrown" where
  "new_WooCommerceNotFoundError m r =
     WooError WooCommerceNotFoundError m (Some 404) r JUndefined None None"

definition new_WooCommerceValidationError ::
  "string \<Rightarrow> int \<Rightarrow> js_value \<Rightarrow> js_value \<Rightarrow> thrown" where
  "new_WooCommerceValidationError m sc r es =
     WooError WooCommerceValidationError m (Some sc) r es None None"

definition new_WooCommerceRateLimitError ::
  "string \<Rightarrow> js_value \<Rightarrow> parsed_number option \<Rightarrow> thrown" where
  "new_WooCommerceRateLimitError m r ra =
     WooError WooCommerceRateLimitError m (Some 429) r JUndefined ra None"

definition new_WooCommerceNetworkError :: "string \<Rightarrow> thrown option \<Rightarrow> thrown" where
  "new_WooCommerceNetworkError m oe =
     WooError WooCommerceNetworkError m None JUndefined JUndefined None oe"

definition new_WooCommerceAPIError :: "string \<Rightarrow> int \<Rightarrow> js_value \<Rightarrow> thrown" where
  "new_WooCommerceAPIError m sc r = WooError WooCommerceAPIError m (Some sc) r JUndefined None None"

section \<open>Utilities\<close>

subsection \<open>\<open>buildQueryString\<close>\<close>

text \<open>
  The loop over \<open>Object.entries(params)\<close>: \<open>pushed key v\<close> is what one pass of the
  loop body pushes onto \<open>queryParts\<close> (nothing after \<open>continue\<close>). The argument of
  \<open>encodeURIComponent\<close> is converted with \<open>String\<close>, as the language does.
\<close>

definition stringified :: "js_value \<Rightarrow> string" where
  "stringified v = (case JSON_stringify v of None \<Rightarrow> ''undefined'' | Some s \<Rightarrow> s)"

fun is_array :: "js_value \<Rightarrow> bool" where
  "is_array (JArr xs) = True"
| "is_array v = False"

fun array_items :: "js_value \<Rightarrow> js_value list" where
  "array_items (JArr xs) = xs"
| "array_items v = []"

fun is_object :: "js_value \<Rightarrow> bool" where
  "is_object (JObj kvs) = True"
| "is_object JNull = True"
| "is_object (JArr xs) = True"
| "is_object v = False"

definition pushed :: "string \<Rightarrow> js_value \<Rightarrow> string list" where
  "pushed key v =
     (if v = JUndefined \<or> v = JNull then []
      else if is_array v then
        map (\<lambda>item. encodeURIComponent (key @ ''[]'') @ ''='' @
                      encodeURIComponent (to_String item)) (array_items v)
      else if is_object v then
        [encodeURIComponent key @ ''='' @ encodeURIComponent (stringified v)]
      else
        [encodeURIComponent key @ ''='' @ encodeURIComponent (to_String v)])"

fun queryParts :: "(string \<times> js_value) list \<Rightarrow> string list \<Rightarrow> string list" where
  "queryParts [] parts = parts"
| "queryParts ((key, v) # rest) parts = queryParts rest (parts @ pushed key v)"

definition buildQueryString :: "(string \<times> js_value) list \<Rightarrow> string" where
  "buildQueryString params = join ''&'' (queryParts params [])"

subsection \<open>\<open>normalizeUrl\<close>\<close>

text \<open>
  \<open>url.replace(/\/$/, '')\<close>: the pattern has no \<open>m\<close> flag, so \<open>$\<close> matches at the end of
  the input only, and at most one character is removed.
\<close>

definition replace_trailing_slash :: "string \<Rightarrow> string" where
  "replace_trailing_slash url =
     (if url \<noteq> [] \<and> last url = CHR ''/'' then butlast url else url)"

definition normalizeUrl :: "string \<Rightarrow> string" where
  "normalizeUrl url =
     (if url = [] then []
      else
        let normalized = replace_trailing_slash url
        in if \<not> startsWith normalized ''http://'' \<and> \<not> startsWith normalized ''https://''
           then ''https://'' @ normalized
           else normalized)"

subsection \<open>\<open>retryWithBackoff\<close>\<close>

text \<open>
  The operation \<open>fn\<close> is a step on a state of its own: it returns the value it resolves
  to or the value it rejects with, and its next state. The run records each invocation
  with its outcome and each \<open>sleep\<close> with its delay, in order.
\<close>

datatype 'a retry_event = Invoked "thrown + 'a" | Slept int

definition as_Error :: "thrown \<Rightarrow> thrown" where
  "as_Error error =
     (if instanceof_Error error then error
      else JsError ''Error'' (to_String (thrown_value error)))"

function retry_loop ::
  "('s \<Rightarrow> (thrown + 'a) \<times> 's) \<Rightarrow> int \<Rightarrow> int \<Rightarrow> int \<Rightarrow> thrown option \<Rightarrow> 's \<Rightarrow>
     'a retry_event list \<Rightarrow> (thrown + 'a) \<times> 's \<times> 'a retry_event list" where
  "retry_loop fn maxRetries baseDelay attempt lastError s trace =
     (if attempt \<le> maxRetries then
        (case fn s of
           (Inr v, s') \<Rightarrow> (Inr v, s', trace @ [Invoked (Inr v)])
         | (Inl error, s') \<Rightarrow>
             retry_loop fn maxRetries baseDelay (attempt + 1) (Some (as_Error error)) s'
               (trace @ [Invoked (Inl error)] @
                  (if attempt < maxRetries then [Slept (baseDelay * 2 ^ nat attempt)] else [])))
      else
        (Inl (case lastError of None \<Rightarrow> NonError JUndefined | Some e \<Rightarrow> e), s, trace))"
  by pat_completeness auto
termination
  by (relation "measure (\<lambda>(fn, maxRetries, baseDelay, attempt, lastError, s, trace).
                   nat (maxRetries + 1 - attempt))") auto

declare retry_loop.simps [simp del]

definition retryWithBackoff ::
  "('s \<Rightarrow> (thrown + 'a) \<times> 's) \<Rightarrow> int \<Rightarrow> int \<Rightarrow> 's \<Rightarrow>
     (thrown + 'a) \<times> 's \<times> 'a retry_event list" where
  "retryWithBackoff fn maxRetries baseDelay s = retry_loop fn maxRetries baseDelay 0 None s []"

section \<open>The base client\<close>

text \<open>
  \<open>WooCommerceConfig\<close> and the fields of \<open>BaseClient\<close>. An optional field is an
  \<open>option\<close>. The OAuth library is a parameter: from a consumer key and secret it makes a
  signer, which gives the value of the \<open>Authorization\<close> header for a URL and a method.
\<close>

type_synonym signer = "string \<Rightarrow> string \<Rightarrow> string"

record config =
  cfg_url :: string
  cfg_consumerKey :: string
  cfg_consumerSecret :: string
  cfg_version :: "string option"
  cfg_timeout :: "int option"
  cfg_queryStringAuth :: "bool option"

record client =
  baseUrl :: string
  version :: string
  timeout :: int
  queryStringAuth :: bool
  consumerKey :: string
  consumerSecret :: string
  oauth :: "signer option"

definition constructor :: "(string \<Rightarrow> string \<Rightarrow> signer) \<Rightarrow> config \<Rightarrow> client" where
  "constructor new_OAuth cfg =
     (let base = normalizeUrl (cfg_url cfg);
          qsa = (case cfg_queryStringAuth cfg of
                   Some b \<Rightarrow> b
                 | None \<Rightarrow> startsWith base ''https://'')
      in \<lparr> baseUrl = base,
           version = (case cfg_version cfg of
                        None \<Rightarrow> ''wc/v3''
                      | Some v \<Rightarrow> if v = [] then ''wc/v3'' else v),
           timeout = (case cfg_timeout cfg of
                        None \<Rightarrow> 30000
                      | Some t \<Rightarrow> if t = 0 then 30000 else t),
           queryStringAuth = qsa,
           consumerKey = cfg_consumerKey cfg,
           consumerSecret = cfg_consumerSecret cfg,
           oauth = (if \<not> qsa then Some (new_OAuth (cfg_consumerKey cfg) (cfg_consumerSecret cfg))
                    else None) \<rparr>)"

text \<open>
  \<open>RequestInit\<close> as the client fills it, and the \<open>Response\<close> of \<open>fetch\<close>: \<open>json\<close> is
  the outcome of \<open>response.json()\<close>, the decoded body or what decoding throws; the names
  of \<open>resp_headers\<close> are in lower case, as \<open>Headers.get\<close> compares them.
\<close>

record request_init =
  init_method :: "string option"
  headers :: "string \<rightharpoonup> string"
  body :: "string option"

record fetch_response =
  status :: int
  statusText :: string
  resp_headers :: "string \<rightharpoonup> string"
  json :: "thrown + js_value"

datatype fetch_result = Rejected thrown | Resolved fetch_response

definition ok :: "fetch_response \<Rightarrow> bool" where
  "ok r = (200 \<le> status r \<and> status r \<le> 299)"

text \<open>
  The method of a request is an ASCII token, and \<open>toUpperCase\<close> maps the ASCII small
  letters to their capitals.
\<close>

definition upper_char :: "char \<Rightarrow> char" where
  "upper_char c =
     (if (97::nat) \<le> of_char c \<and> of_char c \<le> (122::nat)
      then char_of (of_char c - (32::nat)) else c)"

definition toUpperCase :: "string \<Rightarrow> string" where
  "toUpperCase s = map upper_char s"

subsection \<open>\<open>handleErrorResponse\<close>\<close>

text \<open>
  A body that is not JSON leaves \<open>errorData\<close> undefined. The message is the first truthy
  one of \<open>errorData?.message\<close>, \<open>response.statusText\<close> and \<open>'Request failed'\<close>, as the
  constructor of \<open>Error\<close> converts it to a string. Every path ends in \<open>throw\<close>.
\<close>

definition error_message :: "js_value \<Rightarrow> string \<Rightarrow> string" where
  "error_message errorData text =
     to_String
       (if truthy (get_prop errorData ''message'') then get_prop errorData ''message''
        else if truthy (JStr text) then JStr text
        else JStr ''Request failed'')"

definition decoded :: "fetch_response \<Rightarrow> js_value" where
  "decoded resp = (case json resp of Inl e \<Rightarrow> JUndefined | Inr v \<Rightarrow> v)"

definition handleErrorResponse :: "fetch_response \<Rightarrow> thrown + 'a" where
  "handleErrorResponse resp =
     (let errorData = decoded resp;
          message = error_message errorData (statusText resp)
      in if status resp = 401 then Inl (new_WooCommerceAuthenticationError message errorData)
         else if status resp = 403 then Inl (new_WooCommerceAuthorizationError message errorData)
         else if status resp = 404 then Inl (new_WooCommerceNotFoundError message errorData)
         else if status resp = 400 \<or> status resp = 422 then
           Inl (new_WooCommerceValidationError message (status resp) errorData
                  (get_prop (get_prop errorData ''data'') ''params''))
         else if status resp = 429 then
           (let retryAfter = resp_headers resp ''retry-after''
            in Inl (new_WooCommerceRateLimitError message errorData
                      (case retryAfter of
                         None \<Rightarrow> None
                       | Some h \<Rightarrow> if h \<noteq> [] then Some (parseInt h) else None)))
         else if status resp \<ge> 500 then Inl (new_WooCommerceAPIError message (status resp) errorData)
         else Inl (new_WooCommerceError message (Some (status resp)) errorData))"

subsection \<open>\<open>request\<close>\<close>

text \<open>
  \<open>request_url\<close> and \<open>request_headers\<close> are what \<open>request\<close> hands to \<open>fetch\<close>;
  \<open>request_try\<close> is the \<open>try\<close> block, with \<open>Inl\<close> for what it throws;
  \<open>request_catch\<close> is the \<open>catch\<close> block, which always throws: its value is what it
  throws. The abort signal and the timer belong to the run time and are not modelled.
\<close>

definition endpoint_url :: "client \<Rightarrow> string \<Rightarrow> string" where
  "endpoint_url c endpoint = baseUrl c @ ''/wp-json/'' @ version c @ ''/'' @ endpoint"

definition request_url :: "client \<Rightarrow> string \<Rightarrow> string" where
  "request_url c endpoint =
     (let url = endpoint_url c endpoint
      in if queryStringAuth c then
           (let separator = (if str_includes url ''?'' then ''&'' else ''?'')
            in url @ separator @ ''consumer_key='' @ encodeURIComponent (consumerKey c) @
               ''&consumer_secret='' @ encodeURIComponent (consumerSecret c))
         else url)"

definition default_headers :: "string \<rightharpoonup> string" where
  "default_headers =
     [''Content-Type'' \<mapsto> ''application/json'',
      ''Accept'' \<mapsto> ''application/json'',
      ''User-Agent'' \<mapsto> ''WooCommerce-SDK/1.0'']"

definition request_headers :: "client \<Rightarrow> string \<Rightarrow> request_init \<Rightarrow> string \<rightharpoonup> string" where
  "request_headers c endpoint options =
     (let url = endpoint_url c endpoint;
          method = toUpperCase (case init_method options of
                                  None \<Rightarrow> ''GET''
                                | Some m \<Rightarrow> if m = [] then ''GET'' else m);
          options_headers =
            (if queryStringAuth c then headers options
             else (case oauth c of
                     Some sign \<Rightarrow> (headers options)(''Authorization'' \<mapsto> sign url method)
                   | None \<Rightarrow> headers options))
      in default_headers ++ options_headers)"

definition request_try ::
  "(string \<Rightarrow> request_init \<Rightarrow> fetch_result) \<Rightarrow> client \<Rightarrow> string \<Rightarrow> request_init \<Rightarrow>
     thrown + js_value" where
  "request_try fetch c endpoint options =
     (case fetch (request_url c endpoint)
             (options\<lparr> headers := request_headers c endpoint options \<rparr>) of
        Rejected e \<Rightarrow> Inl e
      | Resolved resp \<Rightarrow>
          (case (if \<not> ok resp then handleErrorResponse resp else Inr ()) of
             Inl e \<Rightarrow> Inl e
           | Inr u \<Rightarrow> if status resp = 204 then Inr (JObj []) else json resp))"

definition network_message :: "string \<Rightarrow> bool" where
  "network_message normalizedMessage =
     (str_includes normalizedMessage ''fetch'' \<or>
      str_includes normalizedMessage ''network'' \<or>
      str_includes normalizedMessage ''econnrefused'')"

definition request_catch :: "thrown \<Rightarrow> thrown" where
  "request_catch error =
     (if instanceof_Error error \<and> error_name error = ''AbortError''
        then new_WooCommerceNetworkError ''Request timeout'' (Some error)
      else if instanceof_Error error \<and> network_message (toLowerCase (message error))
        then new_WooCommerceNetworkError ''Network request failed'' (Some error)
      else if instanceof_WooCommerceError error then error
      else new_WooCommerceError
             (if instanceof_Error error then message error else ''Unknown error occurred'')
             None JUndefined)"

definition request ::
  "(string \<Rightarrow> request_init \<Rightarrow> fetch_result) \<Rightarrow> client \<Rightarrow> string \<Rightarrow> request_init \<Rightarrow>
     thrown + js_value" where
  "request fetch c endpoint options =
     (case request_try fetch c endpoint options of
        Inl error \<Rightarrow> Inl (request_catch error)
      | Inr data \<Rightarrow> Inr data)"

subsection \<open>\<open>get\<close>, \<open>post\<close>, \<open>put\<close>, \<open>delete\<close>, \<open>patch\<close>\<close>

definition with_query :: "string \<Rightarrow> (string \<times> js_value) list option \<Rightarrow> string" where
  "with_query endpoint params =
     (case params of
        None \<Rightarrow> endpoint
      | Some ps \<Rightarrow>
          if length ps > 0
          then endpoint @ (if str_includes endpoint ''?'' then ''&'' else ''?'') @ buildQueryString ps
          else endpoint)"

definition with_body :: "string \<Rightarrow> js_value \<Rightarrow> request_init" where
  "with_body m b =
     \<lparr> init_method = Some m, headers = Map.empty,
       body = (if truthy b then JSON_stringify b else None) \<rparr>"

definition get ::
  "(string \<Rightarrow> request_init \<Rightarrow> fetch_result) \<Rightarrow> client \<Rightarrow> string \<Rightarrow>
     (string \<times> js_value) list option \<Rightarrow> thrown + js_value" where
  "get fetch c endpoint params =
     request fetch c (with_query endpoint params)
       \<lparr> init_method = Some ''GET'', headers = Map.empty, body = None \<rparr>"

definition post ::
  "(string \<Rightarrow> request_init \<Rightarrow> fetch_result) \<Rightarrow> client \<Rightarrow> string \<Rightarrow> js_value \<Rightarrow>
     thrown + js_value" where
  "post fetch c endpoint b = request fetch c endpoint (with_body ''POST'' b)"

definition put ::
  "(string \<Rightarrow> request_init \<Rightarrow> fetch_result) \<Rightarrow> client \<Rightarrow> string \<Rightarrow> js_value \<Rightarrow>
     thrown + js_value" where
  "put fetch c endpoint b = request fetch c endpoint (with_body ''PUT'' b)"

definition delete ::
  "(string \<Rightarrow> request_init \<Rightarrow> fetch_result) \<Rightarrow> client \<Rightarrow> string \<Rightarrow>
     (string \<times> js_value) list option \<Rightarrow> thrown + js_value" where
  "delete fetch c endpoint params =
     request fetch c (with_query endpoint params)
       \<lparr> init_method = Some ''DELETE'', headers = Map.empty, body = None \<rparr>"

definition patch ::
  "(string \<Rightarrow> request_init \<Rightarrow> fetch_result) \<Rightarrow> client \<Rightarrow> string \<Rightarrow> js_value \<Rightarrow>
     thrown + js_value" where
  "patch fetch c endpoint b = request fetch c endpoint (with_body ''POST'' b)"

section \<open>The products client\<close>

subsection \<open>\<open>getAll\<close> and \<open>listAll\<close>\<close>

text \<open>
  The listing operation \<open>list\<close> is a parameter: for the parameters of a call it gives the
  page it resolves to or the value it rejects with. The loops ask for each page number
  once, so a function of the parameters describes any run. A loop that never meets a
  short page does not return: the value of the model is \<open>None\<close>. The result comes with
  the parameters of every call made, in order.
\<close>

datatype product_status = Publish | Draft | Pending | Private | Any

record list_params =
  lp_status :: "product_status option"
  per_page :: "int option"
  page :: "int option"

partial_function (option) getAll_loop ::
  "('z list_params_scheme \<Rightarrow> thrown + 'p list) \<Rightarrow> 'z list_params_scheme \<Rightarrow> int \<Rightarrow>
     'p list \<Rightarrow> int \<Rightarrow> 'z list_params_scheme list \<Rightarrow>
     ((thrown + 'p list) \<times> 'z list_params_scheme list) option" where
  "getAll_loop list params perPage allProducts pg calls =
     (case list (params\<lparr> per_page := Some perPage, page := Some pg \<rparr>) of
        Inl e \<Rightarrow> Some (Inl e, calls @ [params\<lparr> per_page := Some perPage, page := Some pg \<rparr>])
      | Inr products \<Rightarrow>
          if int (length products) < perPage
          then Some (Inr (allProducts @ products),
                     calls @ [params\<lparr> per_page := Some perPage, page := Some pg \<rparr>])
          else getAll_loop list params perPage (allProducts @ products) (pg + 1)
                 (calls @ [params\<lparr> per_page := Some perPage, page := Some pg \<rparr>]))"

declare getAll_loop.simps [code]

definition getAll ::
  "(list_params \<Rightarrow> thrown + 'p list) \<Rightarrow> product_status option \<Rightarrow> int option \<Rightarrow>
     ((thrown + 'p list) \<times> list_params list) option" where
  "getAll list status_arg perPage_arg =
     (let status = (case status_arg of None \<Rightarrow> Publish | Some st \<Rightarrow> st);
          perPage = (case perPage_arg of None \<Rightarrow> 100 | Some n \<Rightarrow> n)
      in getAll_loop list
           \<lparr> lp_status = (if status = Any then None else Some status),
             per_page = None, page = None \<rparr>
           perPage [] 1 [])"

definition listAll ::
  "(list_params \<Rightarrow> thrown + 'p list) \<Rightarrow> list_params option \<Rightarrow>
     ((thrown + 'p list) \<times> list_params list) option" where
  "listAll list params_arg =
     (let params = (case params_arg of
                      None \<Rightarrow> \<lparr> lp_status = None, per_page = None, page = None \<rparr>
                    | Some ps \<Rightarrow> ps);
          perPage = (case per_page params of None \<Rightarrow> 100 | Some n \<Rightarrow> n)
      in getAll_loop list params perPage [] 1 [])"

subsection \<open>\<open>batchUpdate\<close>\<close>

text \<open>
  An update has an \<open>id\<close> and a \<open>stock_quantity\<close>, and whatever else the caller's object
  carries; an item of the batch request has these two and \<open>manage_stock\<close>. Of a batch
  request and a batch response only \<open>update\<close> is used; \<open>request_item\<close> is the function
  \<open>batch.map\<close> applies, \<open>batchRequest\<close> the request of a chunk. \<open>super.post\<close> to
  \<open>products/batch\<close> is a parameter, a step on the state of the store. The run records
  each submission with its outcome and each wait with its delay, in order. A chunk is an
  array, which is truthy even when empty, so \<open>if (!batch) continue\<close> never skips one.
\<close>

record stock_update =
  id' :: int
  stock_quantity :: int

record batch_item = stock_update +
  manage_stock :: bool

record 'a batch =
  update :: "'a list option"

datatype 'p batch_event = Posted "batch_item batch" "thrown + 'p batch" | Waited parsed_number

definition BATCH_SIZE :: nat where
  "BATCH_SIZE = 100"

definition slice :: "'a list \<Rightarrow> nat \<Rightarrow> nat \<Rightarrow> 'a list" where
  "slice xs i j = take (j - i) (drop i xs)"

function batches_loop :: "'a list \<Rightarrow> nat \<Rightarrow> 'a list list \<Rightarrow> 'a list list" where
  "batches_loop updates i batches =
     (if i < length updates
      then batches_loop updates (i + BATCH_SIZE) (batches @ [slice updates i (i + BATCH_SIZE)])
      else batches)"
  by pat_completeness auto
termination
  by (relation "measure (\<lambda>(updates, i, batches). length updates - i)")
     (auto simp: BATCH_SIZE_def)

declare batches_loop.simps [simp del]

definition request_item :: "'z stock_update_scheme \<Rightarrow> batch_item" where
  "request_item item =
     \<lparr> id' = id' item, stock_quantity = stock_quantity item, manage_stock = True \<rparr>"

definition batchRequest :: "'z stock_update_scheme list \<Rightarrow> batch_item batch" where
  "batchRequest batch = \<lparr> update = Some (map request_item batch) \<rparr>"

definition delayMs :: "string option \<Rightarrow> parsed_number" where
  "delayMs env =
     parseInt (case env of None \<Rightarrow> ''100'' | Some v \<Rightarrow> if v = [] then ''100'' else v)"

function submit_loop ::
  "('s \<Rightarrow> batch_item batch \<Rightarrow> (thrown + 'p batch) \<times> 's) \<Rightarrow> string option \<Rightarrow>
     'z stock_update_scheme list list \<Rightarrow> nat \<Rightarrow> 'p list \<Rightarrow> 's \<Rightarrow> 'p batch_event list \<Rightarrow>
     (thrown + 'p batch) \<times> 's \<times> 'p batch_event list" where
  "submit_loop post_batch env batches i allResults s trace =
     (if i < length batches then
        (case post_batch s (batchRequest (batches ! i)) of
           (Inl e, s') \<Rightarrow>
             (Inl e, s', trace @ [Posted (batchRequest (batches ! i)) (Inl e)])
         | (Inr res, s') \<Rightarrow>
             submit_loop post_batch env batches (i + 1)
               (case update res of None \<Rightarrow> allResults | Some r \<Rightarrow> allResults @ r)
               s'
               (trace @ [Posted (batchRequest (batches ! i)) (Inr res)] @
                  (if int i < int (length batches) - 1 then [Waited (delayMs env)] else [])))
      else (Inr \<lparr> update = Some allResults \<rparr>, s, trace))"
  by pat_completeness auto
termination
  by (relation "measure (\<lambda>(post_batch, env, batches, i, allResults, s, trace).
                   length batches - i)") auto

declare submit_loop.simps [simp del]

definition batchUpdate ::
  "('s \<Rightarrow> batch_item batch \<Rightarrow> (thrown + 'p batch) \<times> 's) \<Rightarrow> string option \<Rightarrow>
     'z stock_update_scheme list \<Rightarrow> 's \<Rightarrow> (thrown + 'p batch) \<times> 's \<times> 'p batch_event list" where
  "batchUpdate post_batch env updates s =
     (if length updates = 0 then (Inr \<lparr> update = Some [] \<rparr>, s, [])
      else submit_loop post_batch env (batches_loop updates 0 []) 0 [] s [])"

section \<open>Notions used in the statements\<close>

text \<open>
  The entries of a query string are its fields between \<open>&\<close>; the empty string has none.
\<close>

fun split_on :: "char \<Rightarrow> string \<Rightarrow> string list" where
  "split_on c [] = [[]]"
| "split_on c (x # xs) =
     (if x = c then [] # split_on c xs
      else (case split_on c xs of [] \<Rightarrow> [[x]] | y # ys \<Rightarrow> (x # y) # ys))"

definition entries_of :: "string \<Rightarrow> string list" where
  "entries_of q = (if q = [] then [] else split_on CHR ''&'' q)"

text \<open>
  The URL normalizer as the specification words it: strip one trailing \<open>/\<close> if there is
  one, then prepend \<open>https://\<close> if the string has neither protocol prefix.
\<close>

definition strip_one_slash :: "string \<Rightarrow> string" where
  "strip_one_slash s = (case rev s of [] \<Rightarrow> s | c # r \<Rightarrow> if c = CHR ''/'' then rev r else s)"

definition normalize_spec :: "string \<Rightarrow> string" where
  "normalize_spec url =
     (let s = strip_one_slash url
      in if prefix ''http://'' s \<or> prefix ''https://'' s then s else ''https://'' @ s)"

text \<open>
  A signer that only writes down what it is given, a client of a store reached over
  https with the defaults of the configuration, and the options of a plain GET request:
  the inputs of the examples.
\<close>

definition example_signer :: "string \<Rightarrow> string \<Rightarrow> signer" where
  "example_signer key secret url m = ''OAuth '' @ m @ '' '' @ url"

definition example_client :: client where
  "example_client =
     constructor example_signer
       \<lparr> cfg_url = ''https://example.com'', cfg_consumerKey = ''ck_test'',
         cfg_consumerSecret = ''cs_test'', cfg_version = None, cfg_timeout = None,
         cfg_queryStringAuth = None \<rparr>"

definition GET :: request_init where
  "GET = \<lparr> init_method = Some ''GET'', headers = Map.empty, body = None \<rparr>"

text \<open>
  For an operation \<open>fn\<close> started in the state \<open>s\<close>: the state before its invocation
  number \<open>n\<close> (from 0) and the outcome of that invocation, when it is invoked again and
  again; the number of invocations in a run; and two operations on a counter, one that
  fails twice and then succeeds, one that always fails, with a numbered message.
\<close>

fun state_after :: "('s \<Rightarrow> (thrown + 'a) \<times> 's) \<Rightarrow> 's \<Rightarrow> nat \<Rightarrow> 's" where
  "state_after fn s 0 = s"
| "state_after fn s (Suc n) = snd (fn (state_after fn s n))"

definition nth_outcome :: "('s \<Rightarrow> (thrown + 'a) \<times> 's) \<Rightarrow> 's \<Rightarrow> nat \<Rightarrow> thrown + 'a" where
  "nth_outcome fn s n = fst (fn (state_after fn s n))"

fun is_Invoked :: "'a retry_event \<Rightarrow> bool" where
  "is_Invoked (Invoked r) = True"
| "is_Invoked (Slept d) = False"

definition invocations :: "'a retry_event list \<Rightarrow> nat" where
  "invocations trace = length (filter is_Invoked trace)"

definition fails_twice :: "nat \<Rightarrow> (thrown + string) \<times> nat" where
  "fails_twice n =
     (if n < 2 then (Inl (JsError ''Error'' ''Temporary failure''), n + 1)
      else (Inr ''success'', n + 1))"

definition always_fails :: "nat \<Rightarrow> (thrown + string) \<times> nat" where
  "always_fails n = (Inl (JsError ''Error'' (''failure '' @ digits (n + 1))), n + 1)"

text \<open>
  The items of the page a listing operation gives for the parameters of a call (none
  when it rejects), the parameters of the call for page \<open>i\<close>, and a listing operation
  that serves a store of \<open>count\<close> products,
  numbered from 0, in pages of the size asked for.
\<close>

definition page_items :: "('q \<Rightarrow> thrown + 'p list) \<Rightarrow> 'q \<Rightarrow> 'p list" where
  "page_items list ps = (case list ps of Inl e \<Rightarrow> [] | Inr xs \<Rightarrow> xs)"

definition call_params :: "list_params \<Rightarrow> int \<Rightarrow> nat \<Rightarrow> list_params" where
  "call_params q perPage i = q\<lparr> per_page := Some perPage, page := Some (int i) \<rparr>"

definition store_of :: "nat \<Rightarrow> list_params \<Rightarrow> thrown + nat list" where
  "store_of count ps =
     (case (per_page ps, page ps) of
        (Some n, Some p) \<Rightarrow> Inr (take (nat n) (drop (nat ((p - 1) * n)) [0..<count]))
      | _ \<Rightarrow> Inr (take 10 [0..<count]))"

text \<open>
  The lengths of the chunks of a list of \<open>m\<close> items: full chunks of 100, then the
  rest if there is one. Of a run of \<open>batchUpdate\<close>: the batch requests submitted, in
  order, and their items; of an outcome: the updated products of the response, none
  when it is a rejection. Then a store that counts the requests and rejects the second, the
  updates of the products 0 to \<open>n - 1\<close>, and a store that answers every batch request
  with the ids of its items, and counts the requests.
\<close>

fun posted_requests :: "'p batch_event list \<Rightarrow> batch_item batch list" where
  "posted_requests [] = []"
| "posted_requests (Posted req out # evs) = req # posted_requests evs"
| "posted_requests (Waited d # evs) = posted_requests evs"

fun updated_of :: "thrown + 'p batch \<Rightarrow> 'p list" where
  "updated_of (Inl e) = []"
| "updated_of (Inr res) = (case update res of None \<Rightarrow> [] | Some r \<Rightarrow> r)"

definition chunk_lengths :: "nat \<Rightarrow> nat list" where
  "chunk_lengths m = replicate (m div 100) 100 @ (if m mod 100 = 0 then [] else [m mod 100])"

definition items_of :: "'a batch \<Rightarrow> 'a list" where
  "items_of req = (case update req of None \<Rightarrow> [] | Some its \<Rightarrow> its)"


text \<open>
  For a store \<open>post_batch\<close> started in the state \<open>s\<close> and the requests \<open>reqs\<close>
  submitted to it one after the other: the state of the store before the request number
  \<open>n\<close> (from 0) and the outcome of that request. Then the requests of the chunks of an
  input, and the events of the submission number \<open>i\<close> out of \<open>n\<close>: the submission
  with its outcome, and the wait that follows it unless it is the last.
\<close>

fun post_state :: "('s \<Rightarrow> 'q \<Rightarrow> 'r \<times> 's) \<Rightarrow> 's \<Rightarrow> 'q list \<Rightarrow> nat \<Rightarrow> 's" where
  "post_state post_batch s reqs 0 = s"
| "post_state post_batch s reqs (Suc n) =
     snd (post_batch (post_state post_batch s reqs n) (reqs ! n))"

definition post_outcome :: "('s \<Rightarrow> 'q \<Rightarrow> 'r \<times> 's) \<Rightarrow> 's \<Rightarrow> 'q list \<Rightarrow> nat \<Rightarrow> 'r" where
  "post_outcome post_batch s reqs n = fst (post_batch (post_state post_batch s reqs n) (reqs ! n))"

definition chunk_requests :: "'z stock_update_scheme list \<Rightarrow> batch_item batch list" where
  "chunk_requests updates = map batchRequest (batches_loop updates 0 [])"

definition submission ::
  "('s \<Rightarrow> batch_item batch \<Rightarrow> (thrown + 'p batch) \<times> 's) \<Rightarrow> 's \<Rightarrow> batch_item batch list \<Rightarrow>
     string option \<Rightarrow> nat \<Rightarrow> 'p batch_event list" where
  "submission post_batch s reqs env i =
     Posted (reqs ! i) (post_outcome post_batch s reqs i) #
     (if Suc i < length reqs then [Waited (delayMs env)] else [])"

definition failing_store :: "nat \<Rightarrow> batch_item batch \<Rightarrow> (thrown + int batch) \<times> nat" where
  "failing_store n req =
     (if n = 1 then (Inl (JsError ''Error'' ''boom''), n + 1)
      else (Inr \<lparr> update = Some (map id' (case update req of None \<Rightarrow> [] | Some its \<Rightarrow> its)) \<rparr>,
            n + 1))"

definition stock_updates :: "nat \<Rightarrow> stock_update list" where
  "stock_updates n = map (\<lambda>i. \<lparr> id' = int i, stock_quantity = 5 \<rparr>) [0..<n]"

definition echo_store :: "nat \<Rightarrow> batch_item batch \<Rightarrow> (thrown + int batch) \<times> nat" where
  "echo_store n req = (Inr \<lparr> update = Some (map id' (items_of req)) \<rparr>, n + 1)"

section \<open>The URL normalizer\<close>

lemma replace_trailing_slash_eq: "replace_trailing_slash url = strip_one_slash url"
proof (cases url rule: rev_cases)
  case Nil
  then show ?thesis by (simp add: replace_trailing_slash_def strip_one_slash_def)
next
  case (snoc ys y)
  then show ?thesis by (simp add: replace_trailing_slash_def strip_one_slash_def)
qed

lemma normalizeUrl_refines: "url \<noteq> [] \<Longrightarrow> normalizeUrl url = normalize_spec url"
  by (simp add: normalizeUrl_def normalize_spec_def replace_trailing_slash_eq startsWith_def Let_def)

lemma normalizeUrl_fixed:
  assumes "startsWith url ''http://'' \<or> startsWith url ''https://''" and "last url \<noteq> CHR ''/''"
  shows "normalizeUrl url = url"
proof -
  from assms(1) have "url \<noteq> []" by (auto simp: startsWith_def)
  with assms show ?thesis
    by (simp add: normalizeUrl_def replace_trailing_slash_def Let_def)
qed

text \<open>
  C9, as the specification states it, fails on the empty string: the normalizer returns it
  as it is, where stripping and prepending would give \<open>https://\<close>.
\<close>

theorem normalizeUrl_empty_counterexample:
  "normalizeUrl [] = [] \<and> normalize_spec [] = ''https://'' \<and> normalizeUrl [] \<noteq> normalize_spec []"
  by (simp add: normalizeUrl_def normalize_spec_def strip_one_slash_def)

text \<open>
  C9, amended: on every non-empty base URL the normalizer strips exactly one trailing
  \<open>/\<close> if present and then prepends \<open>https://\<close> if the stripped string has neither an
  \<open>http://\<close> nor an \<open>https://\<close> prefix; the empty string is returned empty;
  \<open>example.com\<close> becomes \<open>https://example.com\<close> and \<open>https://example.com/\<close> becomes
  \<open>https://example.com\<close>; an input that has a protocol prefix and no trailing \<open>/\<close> is
  returned unchanged. The function is total and has no failure branch.
\<close>

theorem normalizeUrl_amended:
  "(url \<noteq> [] \<longrightarrow> normalizeUrl url = normalize_spec url) \<and>
   normalizeUrl [] = [] \<and>
   normalizeUrl ''example.com'' = ''https://example.com'' \<and>
   normalizeUrl ''https://example.com/'' = ''https://example.com'' \<and>
   ((startsWith url ''http://'' \<or> startsWith url ''https://'') \<and> last url \<noteq> CHR ''/''
      \<longrightarrow> normalizeUrl url = url)"
proof -
  have "normalizeUrl ''example.com'' = ''https://example.com''"
    by (simp add: normalizeUrl_def replace_trailing_slash_def startsWith_def)
  moreover have "normalizeUrl ''https://example.com/'' = ''https://example.com''"
    by (simp add: normalizeUrl_def replace_trailing_slash_def startsWith_def)
  moreover have "normalizeUrl [] = []"
    by (simp add: normalizeUrl_def)
  ultimately show ?thesis
    using normalizeUrl_refines[of url] normalizeUrl_fixed[of url] by blast
qed

theorem normalizeUrl_amended_witness:
  "''http://example.com/store/'' \<noteq> [] \<and>
   normalizeUrl ''http://example.com/store/'' = normalize_spec ''http://example.com/store/'' \<and>
   normalize_spec ''http://example.com/store/'' = ''http://example.com/store'' \<and>
   startsWith ''http://example.com'' ''http://'' \<and> last ''http://example.com'' \<noteq> CHR ''/'' \<and>
   normalizeUrl ''http://example.com'' = ''http://example.com''"
  using normalizeUrl_amended[of "''http://example.com/store/''"]
        normalizeUrl_amended[of "''http://example.com''"]
  by (simp add: normalize_spec_def strip_one_slash_def startsWith_def)

section \<open>The query encoder\<close>

lemma queryParts_acc: "queryParts ps acc = acc @ concat (map (\<lambda>(k, v). pushed k v) ps)"
  by (induction ps arbitrary: acc) auto

lemma split_on_no_sep: "c \<notin> set p \<Longrightarrow> split_on c p = [p]"
  by (induction p) auto

lemma split_on_append: "c \<notin> set p \<Longrightarrow> split_on c (p @ c # s) = p # split_on c s"
  by (induction p) auto

lemma split_on_join:
  "\<forall>p \<in> set (x # ps). c \<notin> set p \<Longrightarrow> split_on c (join [c] (x # ps)) = x # ps"
proof (induction ps arbitrary: x)
  case Nil
  then show ?case by (simp add: split_on_no_sep)
next
  case (Cons y ys)
  have "split_on c (join [c] (y # ys)) = y # ys"
    using Cons.IH[of y] Cons.prems by simp
  moreover have "c \<notin> set x" using Cons.prems by simp
  ultimately show ?case by (simp add: split_on_append)
qed

lemma join_nonempty: "x \<noteq> [] \<Longrightarrow> join sep (x # ps) \<noteq> []"
  by (cases ps) auto

lemma hex_digit_mem: "hex_digit n \<in> set ''0123456789ABCDEF''"
  unfolding hex_digit_def by (rule nth_mem) simp

lemma hex_digit_no_amp: "hex_digit n \<noteq> CHR ''&''"
  using hex_digit_mem[of n] by auto

lemma encode_char_no_amp: "CHR ''&'' \<notin> set (encode_char c)"
proof (cases "uri_unreserved c")
  case True
  then have "c \<noteq> CHR ''&''" by (auto simp: uri_unreserved_def)
  with True show ?thesis by (simp add: encode_char_def)
next
  case False
  then show ?thesis using hex_digit_no_amp by (simp add: encode_char_def) metis
qed

lemma encode_no_amp: "CHR ''&'' \<notin> set (encodeURIComponent s)"
  using encode_char_no_amp by (auto simp: encodeURIComponent_def)

lemma pushed_no_amp: "p \<in> set (pushed k v) \<Longrightarrow> CHR ''&'' \<notin> set p"
  using encode_no_amp by (auto simp: pushed_def split: if_splits)

lemma pushed_nonempty: "p \<in> set (pushed k v) \<Longrightarrow> p \<noteq> []"
  by (auto simp: pushed_def split: if_splits)

lemma entries_of_join:
  assumes "\<forall>p \<in> set ps. CHR ''&'' \<notin> set p \<and> p \<noteq> []"
  shows "entries_of (join ''&'' ps) = ps"
proof (cases ps)
  case Nil
  then show ?thesis by (simp add: entries_of_def)
next
  case (Cons x xs)
  with assms have "join ''&'' (x # xs) \<noteq> []" by (simp add: join_nonempty)
  moreover have "split_on CHR ''&'' (join [CHR ''&''] (x # xs)) = x # xs"
    using assms Cons by (intro split_on_join) simp
  ultimately show ?thesis using Cons by (simp add: entries_of_def)
qed

lemma entries_of_buildQueryString:
  "entries_of (buildQueryString params) = concat (map (\<lambda>(k, v). pushed k v) params)"
proof -
  have "\<forall>p \<in> set (concat (map (\<lambda>(k, v). pushed k v) params)). CHR ''&'' \<notin> set p \<and> p \<noteq> []"
    using pushed_no_amp pushed_nonempty by fastforce
  then show ?thesis
    unfolding buildQueryString_def queryParts_acc by (simp add: entries_of_join)
qed

lemma encode_brackets: "encodeURIComponent (key @ ''[]'') = encodeURIComponent key @ ''%5B%5D''"
  by (simp add: encodeURIComponent_def encode_char_def uri_unreserved_def hex_digit_def)

lemma pushed_nullish: "v = JUndefined \<or> v = JNull \<Longrightarrow> pushed key v = []"
  by (auto simp: pushed_def)

lemma pushed_array:
  "pushed key (JArr items) =
     map (\<lambda>item. encodeURIComponent key @ ''%5B%5D='' @ encodeURIComponent (to_String item)) items"
  by (simp add: pushed_def encode_brackets)

text \<open>
  C6, as the specification states it, fails on any array: the brackets of the key are
  percent-encoded with the key, so no entry of the output reads \<open>include[]=\<close>.
\<close>

theorem buildQueryString_brackets_counterexample:
  "buildQueryString [(''include'', JArr [JNum 1, JNum 2])] = ''include%5B%5D=1&include%5B%5D=2'' \<and>
   \<not> str_includes (buildQueryString [(''include'', JArr [JNum 1, JNum 2])]) ''include[]=''"
  by code_simp

text \<open>
  C6, amended: the output has no entry for a key whose value is \<open>undefined\<close> or \<open>null\<close>
  (the output is the one of the mapping without that key), a mapping that is empty or
  holds only such values yields the empty string, and an array-valued parameter
  contributes, in its place, exactly one entry per element in the array's order, each
  reading \<open>percent-encoded(key)%5B%5D=percent-encoded(String(item))\<close>: the brackets are
  percent-encoded too.
\<close>

theorem buildQueryString_entries:
  "buildQueryString [] = [] \<and>
   (v = JUndefined \<or> v = JNull \<longrightarrow>
      buildQueryString (before @ (key, v) # after) = buildQueryString (before @ after)) \<and>
   ((\<forall>kv \<in> set params. snd kv = JUndefined \<or> snd kv = JNull) \<longrightarrow> buildQueryString params = []) \<and>
   entries_of (buildQueryString (before @ (key, JArr items) # after)) =
     entries_of (buildQueryString before) @
     map (\<lambda>item. encodeURIComponent key @ ''%5B%5D='' @ encodeURIComponent (to_String item)) items @
     entries_of (buildQueryString after)"
proof -
  have empty: "buildQueryString [] = []"
    by (simp add: buildQueryString_def)
  have skip: "buildQueryString (before @ (key, v) # after) = buildQueryString (before @ after)"
    if "v = JUndefined \<or> v = JNull"
    using pushed_nullish[OF that] by (simp add: buildQueryString_def queryParts_acc)
  have none: "buildQueryString params = []"
    if "\<forall>kv \<in> set params. snd kv = JUndefined \<or> snd kv = JNull"
  proof -
    have "concat (map (\<lambda>(k, v). pushed k v) params) = []"
      using that pushed_nullish by (induction params) auto
    then show ?thesis
      unfolding buildQueryString_def queryParts_acc by (simp only: append_Nil join.simps)
  qed
  have arr: "entries_of (buildQueryString (before @ (key, JArr items) # after)) =
     entries_of (buildQueryString before) @
     map (\<lambda>item. encodeURIComponent key @ ''%5B%5D='' @ encodeURIComponent (to_String item)) items @
     entries_of (buildQueryString after)"
    by (simp add: entries_of_buildQueryString pushed_array)
  from empty skip none arr show ?thesis by blast
qed

theorem buildQueryString_entries_witness:
  "buildQueryString [(''page'', JNum 1), (''search'', JUndefined), (''include'', JArr [JNum 7])] =
     buildQueryString [(''page'', JNum 1), (''include'', JArr [JNum 7])] \<and>
   buildQueryString [(''page'', JNum 1), (''include'', JArr [JNum 7])] = ''page=1&include%5B%5D=7'' \<and>
   list_all (\<lambda>kv. snd kv = JUndefined \<or> snd kv = JNull)
     [(''search'', JUndefined), (''filter'', JNull)] \<and>
   buildQueryString [(''search'', JUndefined), (''filter'', JNull)] = []"
proof -
  have a: "buildQueryString ([(''page'', JNum 1)] @ (''search'', JUndefined) # [(''include'', JArr [JNum 7])]) =
     buildQueryString ([(''page'', JNum 1)] @ [(''include'', JArr [JNum 7])])"
    using buildQueryString_entries[of JUndefined "[(''page'', JNum 1)]" "''search''" "[(''include'', JArr [JNum 7])]"]
    by blast
  have b: "buildQueryString [(''page'', JNum 1), (''include'', JArr [JNum 7])] = ''page=1&include%5B%5D=7''"
    by code_simp
  have c: "\<forall>kv \<in> set [(''search'', JUndefined), (''filter'', JNull)]. snd kv = JUndefined \<or> snd kv = JNull"
    by simp
  have d: "buildQueryString [(''search'', JUndefined), (''filter'', JNull)] = []"
    using buildQueryString_entries[of _ _ _ _ "[(''search'', JUndefined), (''filter'', JNull)]"] c by blast
  have c': "list_all (\<lambda>kv. snd kv = JUndefined \<or> snd kv = JNull)
     [(''search'', JUndefined), (''filter'', JNull)]"
    by simp
  from a b c' d show ?thesis by simp
qed

section \<open>The error classifier\<close>

lemma parseInt_digits:
  assumes "h \<noteq> []" and "\<forall>c \<in> set h. is_digit c"
  shows "parseInt h = Num (int (decimal h))"
proof -
  obtain c cs where h: "h = c # cs" using assms(1) by (cases h) auto
  have dc: "is_digit c" using assms(2) h by simp
  have ns: "\<not> is_space c" and nm: "c \<noteq> CHR ''-''" and np: "c \<noteq> CHR ''+''"
    using dc by (auto simp: is_digit_def is_space_def)
  have tw: "takeWhile is_digit (c # cs) = c # cs"
    using assms(2) h by (metis takeWhile_eq_all_conv)
  show ?thesis
    unfolding h parseInt_def using ns nm np tw by (simp add: parse_digits_def)
qed

lemma error_message_cases:
  "error_message errorData text =
     (if truthy (get_prop errorData ''message'') then to_String (get_prop errorData ''message'')
      else if text \<noteq> [] then text else ''Request failed'')"
  by (simp add: error_message_def)

lemma handleErrorResponse_value:
  "(handleErrorResponse resp :: thrown + 'a) =
     Inl (WooError
            (if status resp = 401 then WooCommerceAuthenticationError
             else if status resp = 403 then WooCommerceAuthorizationError
             else if status resp = 404 then WooCommerceNotFoundError
             else if status resp = 400 \<or> status resp = 422 then WooCommerceValidationError
             else if status resp = 429 then WooCommerceRateLimitError
             else if status resp \<ge> 500 then WooCommerceAPIError
             else WooCommerceError)
            (error_message (decoded resp) (statusText resp))
            (Some (status resp))
            (decoded resp)
            (if status resp = 400 \<or> status resp = 422
             then get_prop (get_prop (decoded resp) ''data'') ''params'' else JUndefined)
            (if status resp = 429
             then (case resp_headers resp ''retry-after'' of
                     None \<Rightarrow> None
                   | Some h \<Rightarrow> if h \<noteq> [] then Some (parseInt h) else None)
             else None)
            None)"
  by (simp add: handleErrorResponse_def Let_def new_WooCommerceAuthenticationError_def
      new_WooCommerceAuthorizationError_def new_WooCommerceNotFoundError_def
      new_WooCommerceValidationError_def new_WooCommerceRateLimitError_def
      new_WooCommerceAPIError_def new_WooCommerceError_def)

lemma body_message_string:
  assumes "json resp = Inr (JObj kvs)" and "map_of kvs ''message'' = Some (JStr s)" and "s \<noteq> []"
  shows "error_message (decoded resp) text = s"
  using assms by (simp add: error_message_def decoded_def)

text \<open>
  C2: the classifier always throws, exactly one error of the taxonomy, whose class is
  fixed by the status code (401 authentication, 403 authorization, 404 not-found, 400 and
  422 validation, 429 rate-limit, 500 and above server, anything else the base class) and
  which carries the status code; its message is the message of the decoded body when that
  is present (truthy; in particular a non-empty string), else the status text when that
  is not empty, else \<open>Request failed\<close>; on 429 with a \<open>Retry-After\<close> header made of
  decimal digits, \<open>retryAfter\<close> is the number they write.
\<close>

theorem handleErrorResponse_classifies:
  "\<exists>e. (handleErrorResponse resp :: thrown + 'a) = Inl e \<and>
     instanceof_WooCommerceError e \<and>
     cls e = (if status resp = 401 then WooCommerceAuthenticationError
              else if status resp = 403 then WooCommerceAuthorizationError
              else if status resp = 404 then WooCommerceNotFoundError
              else if status resp = 400 \<or> status resp = 422 then WooCommerceValidationError
              else if status resp = 429 then WooCommerceRateLimitError
              else if status resp \<ge> 500 then WooCommerceAPIError
              else WooCommerceError) \<and>
     statusCode e = Some (status resp) \<and>
     message e =
       (if truthy (get_prop (decoded resp) ''message'')
        then to_String (get_prop (decoded resp) ''message'')
        else if statusText resp \<noteq> [] then statusText resp
        else ''Request failed'') \<and>
     (\<forall>kvs s. json resp = Inr (JObj kvs) \<and> map_of kvs ''message'' = Some (JStr s) \<and> s \<noteq> []
        \<longrightarrow> message e = s) \<and>
     (\<forall>h. status resp = 429 \<and> resp_headers resp ''retry-after'' = Some h \<and> h \<noteq> [] \<and>
          (\<forall>c \<in> set h. is_digit c) \<and> length h \<le> 15
        \<longrightarrow> retryAfter e = Some (Num (int (decimal h))))"
proof -
  let ?e = "projl (handleErrorResponse resp :: thrown + 'a)"
  have v: "(handleErrorResponse resp :: thrown + 'a) = Inl ?e"
    by (simp add: handleErrorResponse_value)
  have "instanceof_WooCommerceError ?e"
    by (simp add: handleErrorResponse_value)
  moreover have "cls ?e = (if status resp = 401 then WooCommerceAuthenticationError
              else if status resp = 403 then WooCommerceAuthorizationError
              else if status resp = 404 then WooCommerceNotFoundError
              else if status resp = 400 \<or> status resp = 422 then WooCommerceValidationError
              else if status resp = 429 then WooCommerceRateLimitError
              else if status resp \<ge> 500 then WooCommerceAPIError
              else WooCommerceError)"
    by (simp add: handleErrorResponse_value)
  moreover have "statusCode ?e = Some (status resp)"
    by (simp add: handleErrorResponse_value)
  moreover have m: "message ?e = error_message (decoded resp) (statusText resp)"
    by (simp add: handleErrorResponse_value)
  moreover have "\<forall>kvs s. json resp = Inr (JObj kvs) \<and> map_of kvs ''message'' = Some (JStr s) \<and> s \<noteq> []
        \<longrightarrow> message ?e = s"
    using body_message_string[of resp] m by auto
  moreover have "\<forall>h. status resp = 429 \<and> resp_headers resp ''retry-after'' = Some h \<and> h \<noteq> [] \<and>
          (\<forall>c \<in> set h. is_digit c) \<and> length h \<le> 15
        \<longrightarrow> retryAfter ?e = Some (Num (int (decimal h)))"
    by (simp add: handleErrorResponse_value parseInt_digits)
  ultimately show ?thesis
    using v unfolding error_message_cases by blast
qed

theorem handleErrorResponse_classifies_witness:
  "\<exists>e. (handleErrorResponse
          \<lparr> status = 429, statusText = ''Too Many Requests'',
            resp_headers = [''retry-after'' \<mapsto> ''60''],
            json = Inr (JObj [(''code'', JStr ''rate_limited''), (''message'', JStr ''Slow down'')]) \<rparr>
          :: thrown + unit) = Inl e \<and>
        cls e = WooCommerceRateLimitError \<and> statusCode e = Some 429 \<and>
        message e = ''Slow down'' \<and> retryAfter e = Some (Num 60)"
proof -
  let ?resp = "\<lparr> status = 429, statusText = ''Too Many Requests'',
            resp_headers = [''retry-after'' \<mapsto> ''60''],
            json = Inr (JObj [(''code'', JStr ''rate_limited''), (''message'', JStr ''Slow down'')]) \<rparr>"
  obtain e where e: "(handleErrorResponse ?resp :: thrown + unit) = Inl e"
      "cls e = WooCommerceRateLimitError" "statusCode e = Some 429"
      "\<forall>kvs s. json ?resp = Inr (JObj kvs) \<and> map_of kvs ''message'' = Some (JStr s) \<and> s \<noteq> []
        \<longrightarrow> message e = s"
      "\<forall>h. status ?resp = 429 \<and> resp_headers ?resp ''retry-after'' = Some h \<and> h \<noteq> [] \<and>
          (\<forall>c \<in> set h. is_digit c) \<and> length h \<le> 15
        \<longrightarrow> retryAfter e = Some (Num (int (decimal h)))"
    using handleErrorResponse_classifies[of ?resp, where 'a = unit] by auto
  have "message e = ''Slow down''"
    using e(4) by simp
  moreover have "retryAfter e = Some (Num (int (decimal ''60'')))"
    using e(5) by (simp add: is_digit_def)
  moreover have "decimal ''60'' = 60"
    by (simp add: decimal_def digit_value_def)
  ultimately show ?thesis using e(1,2,3) by auto
qed

section \<open>The request executor: what \<open>request\<close> throws\<close>

lemma class_name_not_AbortError: "class_name c \<noteq> ''AbortError''"
  by (cases c) simp_all

lemma request_throws: 
  "request_try fetch c endpoint options = Inl error \<Longrightarrow>
   request fetch c endpoint options = Inl (request_catch error)"
  by (simp add: request_def)

lemma request_catch_typed:
  assumes "instanceof_WooCommerceError error"
    and "\<not> network_message (toLowerCase (message error))"
  shows "request_catch error = error"
proof -
  obtain k m sc r es ra oe where e: "error = WooError k m sc r es ra oe"
    using assms(1) by (cases error) auto
  show ?thesis
    using assms(2) unfolding e request_catch_def
    by (simp add: class_name_not_AbortError)
qed

lemma request_catch_abort:
  assumes "\<not> instanceof_WooCommerceError error" and "instanceof_Error error"
    and "error_name error = ''AbortError''"
  shows "request_catch error = new_WooCommerceNetworkError ''Request timeout'' (Some error)"
  using assms by (simp add: request_catch_def)

lemma request_catch_network:
  assumes "\<not> instanceof_WooCommerceError error" and "instanceof_Error error"
    and "error_name error \<noteq> ''AbortError''"
    and "network_message (toLowerCase (message error))"
  shows "request_catch error = new_WooCommerceNetworkError ''Network request failed'' (Some error)"
  using assms by (simp add: request_catch_def)

lemma request_catch_other:
  assumes "\<not> instanceof_WooCommerceError error" and "instanceof_Error error"
    and "error_name error \<noteq> ''AbortError''"
    and "\<not> network_message (toLowerCase (message error))"
  shows "request_catch error = new_WooCommerceError (message error) None JUndefined"
  using assms by (simp add: request_catch_def)

lemma request_catch_non_error:
  assumes "\<not> instanceof_Error error"
  shows "request_catch error = new_WooCommerceError ''Unknown error occurred'' None JUndefined"
proof -
  obtain v where "error = NonError v" using assms by (cases error) auto
  then show ?thesis by (simp add: request_catch_def)
qed

text \<open>
  What \<open>request\<close> does with a value thrown in its \<open>try\<close> block, case by case: a member
  of the taxonomy whose lower-cased message contains none of \<open>fetch\<close>, \<open>network\<close>,
  \<open>econnrefused\<close> is propagated unchanged; an \<open>Error\<close> outside the taxonomy becomes a
  network error \<open>Request timeout\<close> when its name is \<open>AbortError\<close>, else a network error
  \<open>Network request failed\<close> when its lower-cased message contains one of those words,
  else the base class with its message; a value that is not an \<open>Error\<close> becomes the
  base class with the message \<open>Unknown error occurred\<close>.
\<close>

lemma request_error_propagation:
  assumes "request_try fetch c endpoint options = Inl error"
  shows
    "(instanceof_WooCommerceError error \<and> \<not> network_message (toLowerCase (message error))
        \<longrightarrow> request fetch c endpoint options = Inl error) \<and>
     (\<not> instanceof_WooCommerceError error \<and> instanceof_Error error \<and>
      error_name error = ''AbortError''
        \<longrightarrow> request fetch c endpoint options =
              Inl (WooError WooCommerceNetworkError ''Request timeout'' None JUndefined JUndefined
                     None (Some error))) \<and>
     (\<not> instanceof_WooCommerceError error \<and> instanceof_Error error \<and>
      error_name error \<noteq> ''AbortError'' \<and> network_message (toLowerCase (message error))
        \<longrightarrow> request fetch c endpoint options =
              Inl (WooError WooCommerceNetworkError ''Network request failed'' None JUndefined
                     JUndefined None (Some error))) \<and>
     (\<not> instanceof_WooCommerceError error \<and> instanceof_Error error \<and>
      error_name error \<noteq> ''AbortError'' \<and> \<not> network_message (toLowerCase (message error))
        \<longrightarrow> request fetch c endpoint options =
              Inl (WooError WooCommerceError (message error) None JUndefined JUndefined None None)) \<and>
     (\<not> instanceof_Error error
        \<longrightarrow> request fetch c endpoint options =
              Inl (WooError WooCommerceError ''Unknown error occurred'' None JUndefined JUndefined
                     None None))"
  using request_throws[OF assms] request_catch_typed[of error] request_catch_abort[of error]
    request_catch_network[of error] request_catch_other[of error] request_catch_non_error[of error]
  by (simp add: new_WooCommerceNetworkError_def new_WooCommerceError_def)

lemma request_error_propagation_examples:
  "request (\<lambda>u i. Resolved \<lparr> status = 404, statusText = ''Not Found'', resp_headers = Map.empty,
                              json = Inr (JObj [(''message'', JStr ''Invalid ID.'')]) \<rparr>)
     example_client ''products/1'' GET =
     Inl (WooError WooCommerceNotFoundError ''Invalid ID.'' (Some 404)
            (JObj [(''message'', JStr ''Invalid ID.'')]) JUndefined None None) \<and>
   request (\<lambda>u i. Rejected (JsError ''AbortError'' ''This operation was aborted''))
     example_client ''products'' GET =
     Inl (WooError WooCommerceNetworkError ''Request timeout'' None JUndefined JUndefined None
            (Some (JsError ''AbortError'' ''This operation was aborted''))) \<and>
   request (\<lambda>u i. Rejected (JsError ''Error'' ''connect ECONNREFUSED 127.0.0.1:443''))
     example_client ''products'' GET =
     Inl (WooError WooCommerceNetworkError ''Network request failed'' None JUndefined JUndefined None
            (Some (JsError ''Error'' ''connect ECONNREFUSED 127.0.0.1:443''))) \<and>
   request (\<lambda>u i. Resolved \<lparr> status = 200, statusText = ''OK'', resp_headers = Map.empty,
                              json = Inl (JsError ''SyntaxError'' ''Unexpected end of JSON input'') \<rparr>)
     example_client ''products'' GET =
     Inl (WooError WooCommerceError ''Unexpected end of JSON input'' None JUndefined JUndefined
            None None) \<and>
   request (\<lambda>u i. Rejected (NonError (JStr ''boom''))) example_client ''products'' GET =
     Inl (WooError WooCommerceError ''Unknown error occurred'' None JUndefined JUndefined None None)"
proof -
  let ?body = "JObj [(''message'', JStr ''Invalid ID.'')]"
  let ?f1 = "\<lambda>(u::string) (i::request_init). Resolved \<lparr> status = 404, statusText = ''Not Found'',
                resp_headers = Map.empty, json = Inr ?body \<rparr>"
  let ?e1 = "WooError WooCommerceNotFoundError ''Invalid ID.'' (Some 404) ?body JUndefined None None"
  have t1: "request_try ?f1 example_client ''products/1'' GET = Inl ?e1"
    by (simp add: request_try_def ok_def handleErrorResponse_def decoded_def error_message_def
        Let_def new_WooCommerceNotFoundError_def)
  have n1: "\<not> network_message (toLowerCase (message ?e1))"
    by code_simp
  have r1: "request ?f1 example_client ''products/1'' GET = Inl ?e1"
    using request_error_propagation[OF t1] n1 by simp
  let ?e2 = "JsError ''AbortError'' ''This operation was aborted''"
  have t2: "request_try (\<lambda>u i. Rejected ?e2) example_client ''products'' GET = Inl ?e2"
    by (simp add: request_try_def)
  have r2: "request (\<lambda>u i. Rejected ?e2) example_client ''products'' GET =
     Inl (WooError WooCommerceNetworkError ''Request timeout'' None JUndefined JUndefined None
            (Some ?e2))"
    using request_error_propagation[OF t2] by simp
  let ?e3 = "JsError ''Error'' ''connect ECONNREFUSED 127.0.0.1:443''"
  have t3: "request_try (\<lambda>u i. Rejected ?e3) example_client ''products'' GET = Inl ?e3"
    by (simp add: request_try_def)
  have n3: "network_message (toLowerCase (message ?e3))"
    by code_simp
  have r3: "request (\<lambda>u i. Rejected ?e3) example_client ''products'' GET =
     Inl (WooError WooCommerceNetworkError ''Network request failed'' None JUndefined JUndefined None
            (Some ?e3))"
    using request_error_propagation[OF t3] n3 by simp
  let ?e4 = "JsError ''SyntaxError'' ''Unexpected end of JSON input''"
  let ?f4 = "\<lambda>(u::string) (i::request_init). Resolved \<lparr> status = 200, statusText = ''OK'',
                resp_headers = Map.empty, json = Inl ?e4 \<rparr>"
  have t4: "request_try ?f4 example_client ''products'' GET = Inl ?e4"
    by (simp add: request_try_def ok_def)
  have n4: "\<not> network_message (toLowerCase (message ?e4))"
    by code_simp
  have r4: "request ?f4 example_client ''products'' GET =
     Inl (WooError WooCommerceError ''Unexpected end of JSON input'' None JUndefined JUndefined
            None None)"
    using request_error_propagation[OF t4] n4 by simp
  let ?e5 = "NonError (JStr ''boom'')"
  have t5: "request_try (\<lambda>u i. Rejected ?e5) example_client ''products'' GET = Inl ?e5"
    by (simp add: request_try_def)
  have r5: "request (\<lambda>u i. Rejected ?e5) example_client ''products'' GET =
     Inl (WooError WooCommerceError ''Unknown error occurred'' None JUndefined JUndefined None None)"
    using request_error_propagation[OF t5] by simp
  from r1 r2 r3 r4 r5 show ?thesis by simp
qed

lemma toLowerCase_kelvin:
  "network_message (toLowerCase (''NETWOR'' @ [CHR 0xE2, CHR 0x84, CHR 0xAA] @ '' down''))"
  by code_simp

text \<open>
  C1: an error that is already a member of the taxonomy is to leave \<open>request\<close>
  unchanged, and the \<open>catch\<close> block says so itself (\<open>Re-throw if already a WooCommerce
  error\<close>); but it tests the message for \<open>fetch\<close>, \<open>network\<close> and \<open>econnrefused\<close>
  before it tests the class, and the errors the classifier throws are thrown inside the
  \<open>try\<close> block. So the not-found error of a 404 whose body says
  \<open>Failed to fetch product\<close>, and the base error of a 511 with the status text
  \<open>Network Authentication Required\<close>, are thrown as members of the taxonomy and leave
  \<open>request\<close> wrapped into a network error with another message and no status code.
\<close>

theorem request_rewraps_classified_error:
  "request_try
     (\<lambda>u i. Resolved \<lparr> status = 404, statusText = ''Not Found'', resp_headers = Map.empty,
                        json = Inr (JObj [(''message'', JStr ''Failed to fetch product'')]) \<rparr>)
     example_client ''products/1'' GET =
     Inl (WooError WooCommerceNotFoundError ''Failed to fetch product'' (Some 404)
            (JObj [(''message'', JStr ''Failed to fetch product'')]) JUndefined None None) \<and>
   instanceof_WooCommerceError
     (WooError WooCommerceNotFoundError ''Failed to fetch product'' (Some 404)
        (JObj [(''message'', JStr ''Failed to fetch product'')]) JUndefined None None) \<and>
   request
     (\<lambda>u i. Resolved \<lparr> status = 404, statusText = ''Not Found'', resp_headers = Map.empty,
                        json = Inr (JObj [(''message'', JStr ''Failed to fetch product'')]) \<rparr>)
     example_client ''products/1'' GET =
     Inl (WooError WooCommerceNetworkError ''Network request failed'' None JUndefined JUndefined None
            (Some (WooError WooCommerceNotFoundError ''Failed to fetch product'' (Some 404)
                     (JObj [(''message'', JStr ''Failed to fetch product'')]) JUndefined None None))) \<and>
   request_try
     (\<lambda>u i. Resolved \<lparr> status = 511, statusText = ''Network Authentication Required'',
                        resp_headers = Map.empty,
                        json = Inl (JsError ''SyntaxError'' ''Unexpected token <'') \<rparr>)
     example_client ''products'' GET =
     Inl (WooError WooCommerceAPIError ''Network Authentication Required'' (Some 511)
            JUndefined JUndefined None None) \<and>
   request
     (\<lambda>u i. Resolved \<lparr> status = 511, statusText = ''Network Authentication Required'',
                        resp_headers = Map.empty,
                        json = Inl (JsError ''SyntaxError'' ''Unexpected token <'') \<rparr>)
     example_client ''products'' GET =
     Inl (WooError WooCommerceNetworkError ''Network request failed'' None JUndefined JUndefined None
            (Some (WooError WooCommerceAPIError ''Network Authentication Required'' (Some 511)
                     JUndefined JUndefined None None)))"
proof -
  let ?b = "JObj [(''message'', JStr ''Failed to fetch product'')]"
  let ?f = "\<lambda>(u::string) (i::request_init). Resolved \<lparr> status = 404, statusText = ''Not Found'',
               resp_headers = Map.empty, json = Inr ?b \<rparr>"
  let ?e = "WooError WooCommerceNotFoundError ''Failed to fetch product'' (Some 404) ?b JUndefined
              None None"
  have t: "request_try ?f example_client ''products/1'' GET = Inl ?e"
    by (simp add: request_try_def ok_def handleErrorResponse_def decoded_def error_message_def
        Let_def new_WooCommerceNotFoundError_def)
  have n: "network_message (toLowerCase (message ?e))"
    by code_simp
  have c: "request_catch ?e = WooError WooCommerceNetworkError ''Network request failed'' None
             JUndefined JUndefined None (Some ?e)"
    using n by (simp add: request_catch_def new_WooCommerceNetworkError_def)
  have r: "request ?f example_client ''products/1'' GET =
      Inl (WooError WooCommerceNetworkError ''Network request failed'' None JUndefined JUndefined
             None (Some ?e))"
    using request_throws[OF t] c by simp
  let ?g = "\<lambda>(u::string) (i::request_init). Resolved \<lparr> status = 511,
               statusText = ''Network Authentication Required'', resp_headers = Map.empty,
               json = Inl (JsError ''SyntaxError'' ''Unexpected token <'') \<rparr>"
  let ?d = "WooError WooCommerceAPIError ''Network Authentication Required'' (Some 511)
              JUndefined JUndefined None None"
  have t': "request_try ?g example_client ''products'' GET = Inl ?d"
    by (simp add: request_try_def ok_def handleErrorResponse_def decoded_def error_message_def
        Let_def new_WooCommerceAPIError_def)
  have n': "network_message (toLowerCase (message ?d))"
    by code_simp
  have c': "request_catch ?d = WooError WooCommerceNetworkError ''Network request failed'' None
             JUndefined JUndefined None (Some ?d)"
    using n' by (simp add: request_catch_def new_WooCommerceNetworkError_def)
  have r': "request ?g example_client ''products'' GET =
      Inl (WooError WooCommerceNetworkError ''Network request failed'' None JUndefined JUndefined
             None (Some ?d))"
    using request_throws[OF t'] c' by simp
  from t r t' r' show ?thesis by simp
qed

section \<open>The authentication mode\<close>

lemma normalizeUrl_protocol:
  assumes "url \<noteq> []"
  shows "startsWith (normalizeUrl url) ''http://'' \<or> startsWith (normalizeUrl url) ''https://''"
  using assms by (simp add: normalizeUrl_def Let_def startsWith_def)

lemma protocols_exclusive: "startsWith s ''http://'' \<Longrightarrow> \<not> startsWith s ''https://''"
  by (auto simp: startsWith_def prefix_def)

lemma constructor_fields:
  "baseUrl (constructor new_OAuth cfg) = normalizeUrl (cfg_url cfg)"
  "consumerKey (constructor new_OAuth cfg) = cfg_consumerKey cfg"
  "consumerSecret (constructor new_OAuth cfg) = cfg_consumerSecret cfg"
  "queryStringAuth (constructor new_OAuth cfg) =
     (case cfg_queryStringAuth cfg of Some b \<Rightarrow> b
      | None \<Rightarrow> startsWith (normalizeUrl (cfg_url cfg)) ''https://'')"
  "oauth (constructor new_OAuth cfg) =
     (if queryStringAuth (constructor new_OAuth cfg) then None
      else Some (new_OAuth (cfg_consumerKey cfg) (cfg_consumerSecret cfg)))"
  by (simp_all add: constructor_def Let_def)

lemma request_url_query_string:
  assumes "queryStringAuth c"
  shows "request_url c endpoint =
     endpoint_url c endpoint @ (if str_includes (endpoint_url c endpoint) ''?'' then ''&'' else ''?'') @
     ''consumer_key='' @ encodeURIComponent (consumerKey c) @
     ''&consumer_secret='' @ encodeURIComponent (consumerSecret c)"
  using assms by (simp add: request_url_def Let_def)

lemma request_headers_query_string:
  assumes "queryStringAuth c"
  shows "request_headers c endpoint options ''Authorization'' = headers options ''Authorization''"
  using assms by (simp add: request_headers_def Let_def default_headers_def map_add_def
      split: option.splits)

lemma request_signed:
  assumes "\<not> queryStringAuth c" and "oauth c = Some sign"
  shows "request_url c endpoint = endpoint_url c endpoint"
    and "request_headers c endpoint options ''Authorization'' =
      Some (sign (endpoint_url c endpoint)
              (toUpperCase (case init_method options of None \<Rightarrow> ''GET''
                            | Some m \<Rightarrow> if m = [] then ''GET'' else m)))"
  using assms by (simp_all add: request_url_def request_headers_def Let_def map_add_def)

text \<open>
  C8, as the specification states it, fails on the empty URL, which the normalizer leaves
  empty: with no mode set the client signs its requests, and the base URL has no
  \<open>http://\<close> scheme.
\<close>

theorem empty_url_signed_counterexample:
  "cfg_queryStringAuth \<lparr> cfg_url = [], cfg_consumerKey = ''ck_test'', cfg_consumerSecret = ''cs_test'',
      cfg_version = None, cfg_timeout = None, cfg_queryStringAuth = None \<rparr> = None \<and>
   \<not> queryStringAuth (constructor example_signer
      \<lparr> cfg_url = [], cfg_consumerKey = ''ck_test'', cfg_consumerSecret = ''cs_test'',
        cfg_version = None, cfg_timeout = None, cfg_queryStringAuth = None \<rparr>) \<and>
   oauth (constructor example_signer
      \<lparr> cfg_url = [], cfg_consumerKey = ''ck_test'', cfg_consumerSecret = ''cs_test'',
        cfg_version = None, cfg_timeout = None, cfg_queryStringAuth = None \<rparr>) \<noteq> None \<and>
   \<not> startsWith (baseUrl (constructor example_signer
      \<lparr> cfg_url = [], cfg_consumerKey = ''ck_test'', cfg_consumerSecret = ''cs_test'',
        cfg_version = None, cfg_timeout = None, cfg_queryStringAuth = None \<rparr>)) ''http://''"
  by (simp add: constructor_def normalizeUrl_def startsWith_def)

text \<open>
  C8, amended: with no mode set, the client uses query-string authentication exactly
  when the normalized base URL starts with \<open>https://\<close>, and signs its requests exactly
  when it does not, which for a non-empty URL is exactly when it starts with \<open>http://\<close>;
  a mode that is set decides by itself. In query-string mode every request URL is the
  endpoint URL followed by \<open>?\<close> (or \<open>&\<close> if it has a \<open>?\<close> already) and the
  percent-encoded \<open>consumer_key\<close> and \<open>consumer_secret\<close>, and no \<open>Authorization\<close>
  header is added; in signed mode the request URL is the endpoint URL and the
  \<open>Authorization\<close> header is the one the signer gives for that URL and the upper-cased
  method.
\<close>

theorem auth_mode:
  "(cfg_queryStringAuth cfg = None \<longrightarrow>
      (queryStringAuth (constructor new_OAuth cfg) \<longleftrightarrow>
         startsWith (baseUrl (constructor new_OAuth cfg)) ''https://'') \<and>
      (oauth (constructor new_OAuth cfg) \<noteq> None \<longleftrightarrow>
         \<not> startsWith (baseUrl (constructor new_OAuth cfg)) ''https://'') \<and>
      (cfg_url cfg \<noteq> [] \<longrightarrow>
         (oauth (constructor new_OAuth cfg) \<noteq> None \<longleftrightarrow>
            startsWith (baseUrl (constructor new_OAuth cfg)) ''http://''))) \<and>
   (\<forall>b. cfg_queryStringAuth cfg = Some b \<longrightarrow>
      queryStringAuth (constructor new_OAuth cfg) = b \<and>
      (oauth (constructor new_OAuth cfg) \<noteq> None \<longleftrightarrow> \<not> b)) \<and>
   (queryStringAuth (constructor new_OAuth cfg) \<longrightarrow>
      request_url (constructor new_OAuth cfg) endpoint =
        endpoint_url (constructor new_OAuth cfg) endpoint @
        (if str_includes (endpoint_url (constructor new_OAuth cfg) endpoint) ''?'' then ''&'' else ''?'') @
        ''consumer_key='' @ encodeURIComponent (cfg_consumerKey cfg) @
        ''&consumer_secret='' @ encodeURIComponent (cfg_consumerSecret cfg) \<and>
      request_headers (constructor new_OAuth cfg) endpoint options ''Authorization'' =
        headers options ''Authorization'') \<and>
   (\<not> queryStringAuth (constructor new_OAuth cfg) \<longrightarrow>
      request_url (constructor new_OAuth cfg) endpoint =
        endpoint_url (constructor new_OAuth cfg) endpoint \<and>
      request_headers (constructor new_OAuth cfg) endpoint options ''Authorization'' =
        Some (new_OAuth (cfg_consumerKey cfg) (cfg_consumerSecret cfg)
                (endpoint_url (constructor new_OAuth cfg) endpoint)
                (toUpperCase (case init_method options of None \<Rightarrow> ''GET''
                              | Some m \<Rightarrow> if m = [] then ''GET'' else m))))"
proof -
  let ?c = "constructor new_OAuth cfg"
  have unset: "queryStringAuth ?c \<longleftrightarrow> startsWith (baseUrl ?c) ''https://''"
    if "cfg_queryStringAuth cfg = None"
    using that by (simp add: constructor_fields)
  have signer: "oauth ?c \<noteq> None \<longleftrightarrow> \<not> queryStringAuth ?c"
    by (simp add: constructor_fields(5))
  have plain: "oauth ?c \<noteq> None \<longleftrightarrow> startsWith (baseUrl ?c) ''http://''"
    if "cfg_queryStringAuth cfg = None" and "cfg_url cfg \<noteq> []"
    using unset[OF that(1)] signer normalizeUrl_protocol[OF that(2)]
      protocols_exclusive[of "normalizeUrl (cfg_url cfg)"]
    by (auto simp: constructor_fields(1))
  have set_mode: "queryStringAuth ?c = b \<and> (oauth ?c \<noteq> None \<longleftrightarrow> \<not> b)"
    if "cfg_queryStringAuth cfg = Some b" for b
    using that signer by (simp add: constructor_fields(4))
  have qs: "request_url ?c endpoint =
        endpoint_url ?c endpoint @
        (if str_includes (endpoint_url ?c endpoint) ''?'' then ''&'' else ''?'') @
        ''consumer_key='' @ encodeURIComponent (cfg_consumerKey cfg) @
        ''&consumer_secret='' @ encodeURIComponent (cfg_consumerSecret cfg) \<and>
      request_headers ?c endpoint options ''Authorization'' = headers options ''Authorization''"
    if "queryStringAuth ?c"
    using request_url_query_string[OF that, of endpoint]
      request_headers_query_string[OF that, of endpoint options]
    by (simp add: constructor_fields(2,3))
  have sg: "request_url ?c endpoint = endpoint_url ?c endpoint \<and>
      request_headers ?c endpoint options ''Authorization'' =
        Some (new_OAuth (cfg_consumerKey cfg) (cfg_consumerSecret cfg)
                (endpoint_url ?c endpoint)
                (toUpperCase (case init_method options of None \<Rightarrow> ''GET''
                              | Some m \<Rightarrow> if m = [] then ''GET'' else m)))"
    if "\<not> queryStringAuth ?c"
  proof -
    have "oauth ?c = Some (new_OAuth (cfg_consumerKey cfg) (cfg_consumerSecret cfg))"
      using that by (simp add: constructor_fields(5))
    from request_signed[OF that this] show ?thesis by simp
  qed
  from unset signer plain set_mode qs sg show ?thesis by blast
qed

theorem auth_mode_witness:
  "queryStringAuth example_client \<and>
   request_url example_client ''products'' =
     ''https://example.com/wp-json/wc/v3/products?consumer_key=ck_test&consumer_secret=cs_test'' \<and>
   oauth (constructor example_signer
            \<lparr> cfg_url = ''http://example.com'', cfg_consumerKey = ''ck_test'',
              cfg_consumerSecret = ''cs_test'', cfg_version = None, cfg_timeout = None,
              cfg_queryStringAuth = None \<rparr>) \<noteq> None \<and>
   request_headers (constructor example_signer
            \<lparr> cfg_url = ''http://example.com'', cfg_consumerKey = ''ck_test'',
              cfg_consumerSecret = ''cs_test'', cfg_version = None, cfg_timeout = None,
              cfg_queryStringAuth = None \<rparr>) ''products'' GET ''Authorization'' =
     Some ''OAuth GET http://example.com/wp-json/wc/v3/products'' \<and>
   \<not> queryStringAuth (constructor example_signer
            \<lparr> cfg_url = ''https://example.com'', cfg_consumerKey = ''ck_test'',
              cfg_consumerSecret = ''cs_test'', cfg_version = None, cfg_timeout = None,
              cfg_queryStringAuth = Some False \<rparr>)"
proof -
  let ?sign0 = "example_signer"
  let ?cfg1 = "\<lparr> cfg_url = ''https://example.com'', cfg_consumerKey = ''ck_test'',
         cfg_consumerSecret = ''cs_test'', cfg_version = None, cfg_timeout = None,
         cfg_queryStringAuth = None \<rparr>"
  have c1: "example_client = constructor ?sign0 ?cfg1"
    by (simp add: example_client_def)
  have b1: "startsWith (baseUrl (constructor ?sign0 ?cfg1)) ''https://''"
    by (simp add: constructor_def normalizeUrl_def replace_trailing_slash_def startsWith_def)
  have n1: "cfg_queryStringAuth ?cfg1 = None"
    by simp
  have q1: "queryStringAuth (constructor ?sign0 ?cfg1)"
    using auth_mode[where cfg = ?cfg1 and new_OAuth = ?sign0 and endpoint = "''products''"
        and options = GET] n1 b1 by blast
  have e1: "endpoint_url (constructor ?sign0 ?cfg1) ''products'' =
      ''https://example.com/wp-json/wc/v3/products''"
    by (simp add: endpoint_url_def constructor_def normalizeUrl_def replace_trailing_slash_def
        startsWith_def)
  have enc: "encodeURIComponent ''ck_test'' = ''ck_test''" "encodeURIComponent ''cs_test'' = ''cs_test''"
    by code_simp+
  have u1: "request_url (constructor ?sign0 ?cfg1) ''products'' =
     ''https://example.com/wp-json/wc/v3/products?consumer_key=ck_test&consumer_secret=cs_test''"
  proof -
    have "request_url (constructor ?sign0 ?cfg1) ''products'' =
        endpoint_url (constructor ?sign0 ?cfg1) ''products'' @
        (if str_includes (endpoint_url (constructor ?sign0 ?cfg1) ''products'') ''?'' then ''&'' else ''?'') @
        ''consumer_key='' @ encodeURIComponent (cfg_consumerKey ?cfg1) @
        ''&consumer_secret='' @ encodeURIComponent (cfg_consumerSecret ?cfg1)"
      using auth_mode[where cfg = ?cfg1 and new_OAuth = ?sign0 and endpoint = "''products''"
          and options = GET] q1 by blast
    then show ?thesis by (simp add: e1 enc)
  qed
  let ?sign = "example_signer"
  let ?cfg2 = "\<lparr> cfg_url = ''http://example.com'', cfg_consumerKey = ''ck_test'',
         cfg_consumerSecret = ''cs_test'', cfg_version = None, cfg_timeout = None,
         cfg_queryStringAuth = None \<rparr>"
  have b2: "startsWith (baseUrl (constructor ?sign ?cfg2)) ''http://''"
    by (simp add: constructor_def normalizeUrl_def replace_trailing_slash_def startsWith_def)
  have n2: "cfg_queryStringAuth ?cfg2 = None" and u2: "cfg_url ?cfg2 \<noteq> []"
    by simp_all
  have o2: "oauth (constructor ?sign ?cfg2) \<noteq> None"
    using auth_mode[where cfg = ?cfg2 and new_OAuth = ?sign and endpoint = "''products''"
        and options = GET] n2 u2 b2 by blast
  have nq2: "\<not> queryStringAuth (constructor ?sign ?cfg2)"
    using o2 by (simp add: constructor_def Let_def split: if_splits)
  have e2: "endpoint_url (constructor ?sign ?cfg2) ''products'' =
      ''http://example.com/wp-json/wc/v3/products''"
    by (simp add: endpoint_url_def constructor_def normalizeUrl_def replace_trailing_slash_def
        startsWith_def)
  have up: "toUpperCase ''GET'' = ''GET''"
    by code_simp
  have h2: "request_headers (constructor ?sign ?cfg2) ''products'' GET ''Authorization'' =
     Some ''OAuth GET http://example.com/wp-json/wc/v3/products''"
  proof -
    have "request_headers (constructor ?sign ?cfg2) ''products'' GET ''Authorization'' =
        Some (?sign (cfg_consumerKey ?cfg2) (cfg_consumerSecret ?cfg2)
                (endpoint_url (constructor ?sign ?cfg2) ''products'')
                (toUpperCase (case init_method GET of None \<Rightarrow> ''GET''
                              | Some m \<Rightarrow> if m = [] then ''GET'' else m)))"
      using auth_mode[where cfg = ?cfg2 and new_OAuth = ?sign and endpoint = "''products''"
          and options = GET] nq2 by blast
    then show ?thesis by (simp add: e2 GET_def up example_signer_def)
  qed
  let ?cfg3 = "\<lparr> cfg_url = ''https://example.com'', cfg_consumerKey = ''ck_test'',
         cfg_consumerSecret = ''cs_test'', cfg_version = None, cfg_timeout = None,
         cfg_queryStringAuth = Some False \<rparr>"
  have n3: "cfg_queryStringAuth ?cfg3 = Some False"
    by simp
  have q3: "\<not> queryStringAuth (constructor ?sign0 ?cfg3)"
    using auth_mode[where cfg = ?cfg3 and new_OAuth = ?sign0 and endpoint = "''products''"
        and options = GET] n3 by blast
  from q1 u1 o2 h2 q3 show ?thesis unfolding c1 by simp
qed

section \<open>The backoff retrier\<close>

lemma fn_at: "fn (state_after fn s n) = (nth_outcome fn s n, state_after fn s (Suc n))"
  by (simp add: nth_outcome_def)

lemma retry_loop_success:
  assumes "\<forall>i. a \<le> i \<and> i < k \<longrightarrow> isl (nth_outcome fn s0 i)"
    and "nth_outcome fn s0 k = Inr v" and "a \<le> k" and "int k \<le> maxRetries"
  shows "retry_loop fn maxRetries b (int a) le (state_after fn s0 a) tr =
     (Inr v, state_after fn s0 (Suc k),
      tr @ concat (map (\<lambda>i. [Invoked (nth_outcome fn s0 i), Slept (b * 2 ^ i)]) [a..<k]) @
        [Invoked (Inr v)])"
  using assms
proof (induction "k - a" arbitrary: a le tr)
  case 0
  then have ak: "a = k" by simp
  show ?case
    unfolding ak
    by (subst retry_loop.simps) (simp add: fn_at "0.prems"(2,4) del: state_after.simps)
next
  case (Suc d)
  then have lt: "a < k" by simp
  then obtain e where e: "nth_outcome fn s0 a = Inl e"
    using Suc.prems(1) by (auto simp: isl_def)
  have IH: "retry_loop fn maxRetries b (int (Suc a)) le' (state_after fn s0 (Suc a)) tr' =
     (Inr v, state_after fn s0 (Suc k),
      tr' @ concat (map (\<lambda>i. [Invoked (nth_outcome fn s0 i), Slept (b * 2 ^ i)]) [Suc a..<k]) @
        [Invoked (Inr v)])" for le' tr'
    using Suc.hyps(1)[of "Suc a" le' tr'] Suc.hyps(2) Suc.prems lt by simp
  have up: "[a..<k] = a # [Suc a..<k]"
    using lt by (simp add: upt_conv_Cons)
  have int_suc: "int a + 1 = int (Suc a)" by simp
  have "retry_loop fn maxRetries b (int a) le (state_after fn s0 a) tr =
      retry_loop fn maxRetries b (int a + 1) (Some (as_Error e)) (state_after fn s0 (Suc a))
        (tr @ [Invoked (Inl e)] @ [Slept (b * 2 ^ a)])"
    using lt Suc.prems(4)
    by (subst retry_loop.simps) (simp add: fn_at e del: state_after.simps)
  then have "retry_loop fn maxRetries b (int a) le (state_after fn s0 a) tr =
     (Inr v, state_after fn s0 (Suc k),
      (tr @ [Invoked (Inl e)] @ [Slept (b * 2 ^ a)]) @
        concat (map (\<lambda>i. [Invoked (nth_outcome fn s0 i), Slept (b * 2 ^ i)]) [Suc a..<k]) @
        [Invoked (Inr v)])"
    unfolding int_suc IH .
  then show ?case
    by (simp add: up e del: state_after.simps)
qed

lemma retry_loop_exhausted:
  assumes "\<forall>i. a \<le> i \<and> i \<le> n \<longrightarrow> isl (nth_outcome fn s0 i)" and "a \<le> n"
  shows "retry_loop fn (int n) b (int a) le (state_after fn s0 a) tr =
     (Inl (as_Error (projl (nth_outcome fn s0 n))), state_after fn s0 (Suc n),
      tr @ concat (map (\<lambda>i. [Invoked (nth_outcome fn s0 i), Slept (b * 2 ^ i)]) [a..<n]) @
        [Invoked (nth_outcome fn s0 n)])"
  using assms
proof (induction "n - a" arbitrary: a le tr)
  case 0
  then have an: "a = n" by simp
  obtain e where e: "nth_outcome fn s0 n = Inl e"
    using "0.prems"(1) an by (auto simp: isl_def)
  have "retry_loop fn (int n) b (int n) le (state_after fn s0 n) tr =
      retry_loop fn (int n) b (int n + 1) (Some (as_Error e)) (state_after fn s0 (Suc n))
        (tr @ [Invoked (Inl e)])"
    by (subst retry_loop.simps) (simp add: fn_at e del: state_after.simps)
  also have "\<dots> = (Inl (as_Error e), state_after fn s0 (Suc n), tr @ [Invoked (Inl e)])"
    by (subst retry_loop.simps) simp
  finally show ?case
    unfolding an by (simp add: e del: state_after.simps)
next
  case (Suc d)
  then have lt: "a < n" by simp
  then obtain e where e: "nth_outcome fn s0 a = Inl e"
    using Suc.prems(1) by (auto simp: isl_def)
  have IH: "retry_loop fn (int n) b (int (Suc a)) le' (state_after fn s0 (Suc a)) tr' =
     (Inl (as_Error (projl (nth_outcome fn s0 n))), state_after fn s0 (Suc n),
      tr' @ concat (map (\<lambda>i. [Invoked (nth_outcome fn s0 i), Slept (b * 2 ^ i)]) [Suc a..<n]) @
        [Invoked (nth_outcome fn s0 n)])" for le' tr'
    using Suc.hyps(1)[of "Suc a" le' tr'] Suc.hyps(2) Suc.prems lt by simp
  have up: "[a..<n] = a # [Suc a..<n]"
    using lt by (simp add: upt_conv_Cons)
  have int_suc: "int a + 1 = int (Suc a)" by simp
  have "retry_loop fn (int n) b (int a) le (state_after fn s0 a) tr =
      retry_loop fn (int n) b (int a + 1) (Some (as_Error e)) (state_after fn s0 (Suc a))
        (tr @ [Invoked (Inl e)] @ [Slept (b * 2 ^ a)])"
    using lt
    by (subst retry_loop.simps) (simp add: fn_at e del: state_after.simps)
  then have "retry_loop fn (int n) b (int a) le (state_after fn s0 a) tr =
     (Inl (as_Error (projl (nth_outcome fn s0 n))), state_after fn s0 (Suc n),
      (tr @ [Invoked (Inl e)] @ [Slept (b * 2 ^ a)]) @
        concat (map (\<lambda>i. [Invoked (nth_outcome fn s0 i), Slept (b * 2 ^ i)]) [Suc a..<n]) @
        [Invoked (nth_outcome fn s0 n)])"
    unfolding int_suc IH .
  then show ?case
    by (simp add: up e del: state_after.simps)
qed

lemma retry_loop_invocations:
  "invocations (snd (snd (retry_loop fn maxRetries b attempt le s tr))) \<le>
     invocations tr + nat (maxRetries + 1 - attempt)"
proof (induction fn maxRetries b attempt le s tr rule: retry_loop.induct)
  case (1 fn maxRetries baseDelay attempt lastError s trace)
  show ?case
  proof (cases "attempt \<le> maxRetries")
    case False
    then show ?thesis by (subst retry_loop.simps) simp
  next
    case True
    obtain r s' where f: "fn s = (r, s')" by (cases "fn s")
    show ?thesis
    proof (cases r)
      case (Inr v)
      with True f show ?thesis
        by (subst retry_loop.simps) (simp add: invocations_def)
    next
      case (Inl e)
      have "invocations (snd (snd (retry_loop fn maxRetries baseDelay (attempt + 1)
              (Some (as_Error e)) s'
              (trace @ [Invoked (Inl e)] @
                 (if attempt < maxRetries then [Slept (baseDelay * 2 ^ nat attempt)] else [])))))
          \<le> invocations (trace @ [Invoked (Inl e)] @
                 (if attempt < maxRetries then [Slept (baseDelay * 2 ^ nat attempt)] else []))
              + nat (maxRetries + 1 - (attempt + 1))"
        using "1.IH"[OF True f[symmetric] Inl] .
      moreover have "invocations (trace @ [Invoked (Inl e)] @
                 (if attempt < maxRetries then [Slept (baseDelay * 2 ^ nat attempt)] else []))
            = invocations trace + 1"
        by (simp add: invocations_def)
      ultimately show ?thesis
        using True f Inl by (subst retry_loop.simps) simp
    qed
  qed
qed

lemma invocations_failed_attempts:
  "invocations (concat (map (\<lambda>i. [Invoked (f i), Slept (g i)]) is) @ [Invoked r]) = Suc (length is)"
  by (induction "is") (simp_all add: invocations_def)

text \<open>
  C3, as the specification states it, fails on an operation that rejects with a value
  that is not an \<open>Error\<close>: what the retrier throws in the end is a new \<open>Error\<close> made of
  that value, not the value.
\<close>

theorem retryWithBackoff_non_error_counterexample:
  "retryWithBackoff (\<lambda>s :: unit. (Inl (NonError (JStr ''boom'')) :: thrown + unit, s)) 0 1000 () =
     (Inl (JsError ''Error'' ''boom''), (), [Invoked (Inl (NonError (JStr ''boom'')))]) \<and>
   JsError ''Error'' ''boom'' \<noteq> NonError (JStr ''boom'')"
proof -
  have "retry_loop (\<lambda>s :: unit. (Inl (NonError (JStr ''boom'')) :: thrown + unit, s)) 0 1000 0 None () [] =
      retry_loop (\<lambda>s :: unit. (Inl (NonError (JStr ''boom'')) :: thrown + unit, s)) 0 1000 (0 + 1)
        (Some (JsError ''Error'' ''boom'')) () [Invoked (Inl (NonError (JStr ''boom'')))]"
    by (subst retry_loop.simps) (simp add: as_Error_def)
  also have "\<dots> = (Inl (JsError ''Error'' ''boom''), (), [Invoked (Inl (NonError (JStr ''boom'')))])"
    by (subst retry_loop.simps) simp
  finally show ?thesis by (simp add: retryWithBackoff_def)
qed

text \<open>
  C3, amended: for every operation and every \<open>maxRetries \<ge> 0\<close> the retrier invokes the
  operation at most \<open>maxRetries + 1\<close> times; if the invocation number \<open>k \<le> maxRetries\<close>
  (from 0) is the first to succeed, it returns that result after exactly \<open>k + 1\<close>
  invocations, having slept \<open>baseDelay * 2^i\<close> after the failed invocation \<open>i\<close>, for
  \<open>i = 0, \<dots>, k - 1\<close>; if all \<open>maxRetries + 1\<close> invocations fail it throws the last
  value thrown, unchanged when it is an \<open>Error\<close> and as a new \<open>Error\<close> with the message
  \<open>String(value)\<close> when it is not, having slept after every failure but the last.
\<close>

theorem retryWithBackoff_amended:
  assumes "0 \<le> maxRetries"
  shows
    "invocations (snd (snd (retryWithBackoff fn maxRetries baseDelay s))) \<le> nat maxRetries + 1 \<and>
     (\<forall>k v. (\<forall>i<k. isl (nth_outcome fn s i)) \<and> nth_outcome fn s k = Inr v \<and> int k \<le> maxRetries
        \<longrightarrow> retryWithBackoff fn maxRetries baseDelay s =
              (Inr v, state_after fn s (Suc k),
               concat (map (\<lambda>i. [Invoked (nth_outcome fn s i), Slept (baseDelay * 2 ^ i)]) [0..<k]) @
                 [Invoked (Inr v)]) \<and>
            invocations (snd (snd (retryWithBackoff fn maxRetries baseDelay s))) = k + 1) \<and>
     ((\<forall>i \<le> nat maxRetries. isl (nth_outcome fn s i))
        \<longrightarrow> retryWithBackoff fn maxRetries baseDelay s =
              (Inl (as_Error (projl (nth_outcome fn s (nat maxRetries)))),
               state_after fn s (Suc (nat maxRetries)),
               concat (map (\<lambda>i. [Invoked (nth_outcome fn s i), Slept (baseDelay * 2 ^ i)])
                         [0..<nat maxRetries]) @
                 [Invoked (nth_outcome fn s (nat maxRetries))]) \<and>
            invocations (snd (snd (retryWithBackoff fn maxRetries baseDelay s))) = nat maxRetries + 1) \<and>
     (\<forall>e. instanceof_Error e \<longrightarrow> as_Error e = e) \<and>
     (\<forall>x. as_Error (NonError x) = JsError ''Error'' (to_String x))"
proof -
  have bound: "invocations (snd (snd (retryWithBackoff fn maxRetries baseDelay s))) \<le> nat maxRetries + 1"
    using retry_loop_invocations[of fn maxRetries baseDelay 0 None s "[]"] assms
    by (simp add: retryWithBackoff_def invocations_def nat_add_distrib)
  have succ: "retryWithBackoff fn maxRetries baseDelay s =
              (Inr v, state_after fn s (Suc k),
               concat (map (\<lambda>i. [Invoked (nth_outcome fn s i), Slept (baseDelay * 2 ^ i)]) [0..<k]) @
                 [Invoked (Inr v)]) \<and>
            invocations (snd (snd (retryWithBackoff fn maxRetries baseDelay s))) = k + 1"
    if "\<forall>i<k. isl (nth_outcome fn s i)" and "nth_outcome fn s k = Inr v" and "int k \<le> maxRetries"
    for k v
  proof -
    have "retry_loop fn maxRetries baseDelay (int 0) None (state_after fn s 0) [] =
        (Inr v, state_after fn s (Suc k),
         [] @ concat (map (\<lambda>i. [Invoked (nth_outcome fn s i), Slept (baseDelay * 2 ^ i)]) [0..<k]) @
           [Invoked (Inr v)])"
      using that by (intro retry_loop_success) simp_all
    then have eq: "retryWithBackoff fn maxRetries baseDelay s =
        (Inr v, state_after fn s (Suc k),
         concat (map (\<lambda>i. [Invoked (nth_outcome fn s i), Slept (baseDelay * 2 ^ i)]) [0..<k]) @
           [Invoked (Inr v)])"
      by (simp add: retryWithBackoff_def del: state_after.simps(2))
    show ?thesis
      unfolding eq by (simp add: invocations_failed_attempts del: state_after.simps(2))
  qed
  have exh: "retryWithBackoff fn maxRetries baseDelay s =
              (Inl (as_Error (projl (nth_outcome fn s (nat maxRetries)))),
               state_after fn s (Suc (nat maxRetries)),
               concat (map (\<lambda>i. [Invoked (nth_outcome fn s i), Slept (baseDelay * 2 ^ i)])
                         [0..<nat maxRetries]) @
                 [Invoked (nth_outcome fn s (nat maxRetries))]) \<and>
            invocations (snd (snd (retryWithBackoff fn maxRetries baseDelay s))) = nat maxRetries + 1"
    if "\<forall>i \<le> nat maxRetries. isl (nth_outcome fn s i)"
  proof -
    have m: "maxRetries = int (nat maxRetries)" using assms by simp
    have "retry_loop fn (int (nat maxRetries)) baseDelay (int 0) None (state_after fn s 0) [] =
        (Inl (as_Error (projl (nth_outcome fn s (nat maxRetries)))),
         state_after fn s (Suc (nat maxRetries)),
         [] @ concat (map (\<lambda>i. [Invoked (nth_outcome fn s i), Slept (baseDelay * 2 ^ i)])
                   [0..<nat maxRetries]) @
           [Invoked (nth_outcome fn s (nat maxRetries))])"
      using that by (intro retry_loop_exhausted) simp_all
    then have eq: "retryWithBackoff fn maxRetries baseDelay s =
        (Inl (as_Error (projl (nth_outcome fn s (nat maxRetries)))),
         state_after fn s (Suc (nat maxRetries)),
         concat (map (\<lambda>i. [Invoked (nth_outcome fn s i), Slept (baseDelay * 2 ^ i)])
                   [0..<nat maxRetries]) @
           [Invoked (nth_outcome fn s (nat maxRetries))])"
      using m by (simp add: retryWithBackoff_def del: state_after.simps(2))
    show ?thesis
      unfolding eq by (simp add: invocations_failed_attempts del: state_after.simps(2))
  qed
  have keep: "\<forall>e. instanceof_Error e \<longrightarrow> as_Error e = e"
    by (simp add: as_Error_def)
  have wrap: "\<forall>x. as_Error (NonError x) = JsError ''Error'' (to_String x)"
    by (simp add: as_Error_def)
  from bound succ exh keep wrap show ?thesis by blast
qed

theorem retryWithBackoff_amended_witness:
  "(0::int) \<le> 3 \<and> (0::int) \<le> 2 \<and>
   retryWithBackoff fails_twice 3 10 0 =
     (Inr ''success'', 3,
      [Invoked (Inl (JsError ''Error'' ''Temporary failure'')), Slept 10,
       Invoked (Inl (JsError ''Error'' ''Temporary failure'')), Slept 20,
       Invoked (Inr ''success'')]) \<and>
   invocations (snd (snd (retryWithBackoff fails_twice 3 10 0))) = 3 \<and>
   retryWithBackoff always_fails 2 10 0 =
     (Inl (JsError ''Error'' ''failure 3''), 3,
      [Invoked (Inl (JsError ''Error'' ''failure 1'')), Slept 10,
       Invoked (Inl (JsError ''Error'' ''failure 2'')), Slept 20,
       Invoked (Inl (JsError ''Error'' ''failure 3''))]) \<and>
   invocations (snd (snd (retryWithBackoff always_fails 2 10 0))) = 3"
proof -
  have f0: "nth_outcome fails_twice 0 0 = Inl (JsError ''Error'' ''Temporary failure'')"
    and f1: "nth_outcome fails_twice 0 1 = Inl (JsError ''Error'' ''Temporary failure'')"
    and f2: "nth_outcome fails_twice 0 2 = Inr ''success''"
    and fs: "state_after fails_twice 0 (Suc 2) = 3"
    by code_simp+
  have ffail: "\<forall>i<2. isl (nth_outcome fails_twice 0 i)"
  proof (intro allI impI)
    fix i :: nat assume "i < 2"
    then have "i = 0 \<or> i = 1" by auto
    then show "isl (nth_outcome fails_twice 0 i)" using f0 f1 by auto
  qed
  have up2: "[0..<2] = [0, Suc 0]"
    by (simp add: upt_rec)
  have a: "retryWithBackoff fails_twice 3 10 0 =
        (Inr ''success'', state_after fails_twice 0 (Suc 2),
         concat (map (\<lambda>i. [Invoked (nth_outcome fails_twice 0 i), Slept (10 * 2 ^ i)]) [0..<2]) @
           [Invoked (Inr ''success'')]) \<and>
      invocations (snd (snd (retryWithBackoff fails_twice 3 10 0))) = 2 + 1"
  proof -
    have le: "(0::int) \<le> 3" and k: "int 2 \<le> (3::int)" by simp_all
    from retryWithBackoff_amended[OF le, of fails_twice 10 0] ffail f2 k
    show ?thesis by blast
  qed
  have a1: "retryWithBackoff fails_twice 3 10 0 =
     (Inr ''success'', 3,
      [Invoked (Inl (JsError ''Error'' ''Temporary failure'')), Slept 10,
       Invoked (Inl (JsError ''Error'' ''Temporary failure'')), Slept 20,
       Invoked (Inr ''success'')])"
    using a[THEN conjunct1] f0 f1 fs unfolding up2 by simp
  have g0: "nth_outcome always_fails 0 0 = Inl (JsError ''Error'' ''failure 1'')"
    and g1: "nth_outcome always_fails 0 1 = Inl (JsError ''Error'' ''failure 2'')"
    and g2: "nth_outcome always_fails 0 2 = Inl (JsError ''Error'' ''failure 3'')"
    and gs: "state_after always_fails 0 (Suc 2) = 3"
    by code_simp+
  have gfail: "\<forall>i \<le> nat 2. isl (nth_outcome always_fails 0 i)"
  proof (intro allI impI)
    fix i :: nat assume "i \<le> nat 2"
    then have "i = 0 \<or> i = 1 \<or> i = 2" by auto
    then show "isl (nth_outcome always_fails 0 i)" using g0 g1 g2 by auto
  qed
  have b: "retryWithBackoff always_fails 2 10 0 =
        (Inl (as_Error (projl (nth_outcome always_fails 0 (nat 2)))),
         state_after always_fails 0 (Suc (nat 2)),
         concat (map (\<lambda>i. [Invoked (nth_outcome always_fails 0 i), Slept (10 * 2 ^ i)])
                   [0..<nat 2]) @
           [Invoked (nth_outcome always_fails 0 (nat 2))]) \<and>
      invocations (snd (snd (retryWithBackoff always_fails 2 10 0))) = nat 2 + 1"
  proof -
    have le: "(0::int) \<le> 2" by simp
    from retryWithBackoff_amended[OF le, of always_fails 10 0] gfail
    show ?thesis by blast
  qed
  have n2: "nat 2 = 2" by simp
  have b1: "retryWithBackoff always_fails 2 10 0 =
     (Inl (JsError ''Error'' ''failure 3''), 3,
      [Invoked (Inl (JsError ''Error'' ''failure 1'')), Slept 10,
       Invoked (Inl (JsError ''Error'' ''failure 2'')), Slept 20,
       Invoked (Inl (JsError ''Error'' ''failure 3''))])"
    using b[THEN conjunct1] g0 g1 g2 gs unfolding n2 up2 by (simp add: as_Error_def)
  have a2: "invocations (snd (snd (retryWithBackoff fails_twice 3 10 0))) = 3"
    using a[THEN conjunct2] by simp
  have b2: "invocations (snd (snd (retryWithBackoff always_fails 2 10 0))) = 3"
    using b[THEN conjunct2] by simp
  have z: "(0::int) \<le> 3" "(0::int) \<le> 2"
    by simp_all
  from z a1 a2 b1 b2 show ?thesis by blast
qed

section \<open>The paginator\<close>

lemma getAll_loop_pages:
  assumes "\<forall>i. a \<le> i \<and> i < k \<longrightarrow>
             (\<exists>xs. list (q\<lparr> per_page := Some perPage, page := Some (int i) \<rparr>) = Inr xs \<and>
                   \<not> int (length xs) < perPage)"
    and "list (q\<lparr> per_page := Some perPage, page := Some (int k) \<rparr>) = Inr ys"
    and "int (length ys) < perPage" and "a \<le> k"
  shows "getAll_loop list q perPage acc (int a) calls =
     Some (Inr (acc @ concat (map (\<lambda>i. page_items list (q\<lparr> per_page := Some perPage, page := Some (int i) \<rparr>)) [a..<Suc k])),
           calls @ map (\<lambda>i. q\<lparr> per_page := Some perPage, page := Some (int i) \<rparr>) [a..<Suc k])"
  using assms
proof (induction "k - a" arbitrary: a acc calls)
  case 0
  then have ak: "a = k" by simp
  show ?case
    unfolding ak
    by (subst getAll_loop.simps) (simp add: "0.prems"(2,3) page_items_def)
next
  case (Suc d)
  then have lt: "a < k" by simp
  then obtain xs where xs: "list (q\<lparr> per_page := Some perPage, page := Some (int a) \<rparr>) = Inr xs"
      "\<not> int (length xs) < perPage"
    using Suc.prems(1) by blast
  have IH: "getAll_loop list q perPage acc' (int (Suc a)) calls' =
     Some (Inr (acc' @ concat (map (\<lambda>i. page_items list (q\<lparr> per_page := Some perPage, page := Some (int i) \<rparr>)) [Suc a..<Suc k])),
           calls' @ map (\<lambda>i. q\<lparr> per_page := Some perPage, page := Some (int i) \<rparr>) [Suc a..<Suc k])"
    for acc' calls'
    using Suc.hyps(1)[of "Suc a" acc' calls'] Suc.hyps(2) Suc.prems lt by simp
  have up: "[a..<Suc k] = a # [Suc a..<Suc k]"
    using lt by (simp add: upt_conv_Cons)
  have int_suc: "int a + 1 = int (Suc a)" by simp
  have "getAll_loop list q perPage acc (int a) calls =
      getAll_loop list q perPage (acc @ xs) (int a + 1)
        (calls @ [q\<lparr> per_page := Some perPage, page := Some (int a) \<rparr>])"
    by (subst getAll_loop.simps) (simp add: xs)
  then have "getAll_loop list q perPage acc (int a) calls =
     Some (Inr ((acc @ xs) @ concat (map (\<lambda>i. page_items list (q\<lparr> per_page := Some perPage, page := Some (int i) \<rparr>)) [Suc a..<Suc k])),
           (calls @ [q\<lparr> per_page := Some perPage, page := Some (int a) \<rparr>]) @
             map (\<lambda>i. q\<lparr> per_page := Some perPage, page := Some (int i) \<rparr>) [Suc a..<Suc k])"
    unfolding int_suc IH .
  then show ?case
    unfolding up by (simp add: page_items_def xs)
qed

lemma getAll_loop_from_first:
  assumes "1 \<le> k"
    and "\<forall>i. 1 \<le> i \<and> i < k \<longrightarrow>
           (\<exists>xs. list (call_params q perPage i) = Inr xs \<and> perPage \<le> int (length xs))"
    and "\<exists>ys. list (call_params q perPage k) = Inr ys \<and> int (length ys) < perPage"
  shows "getAll_loop list q perPage [] 1 [] =
     Some (Inr (concat (map (\<lambda>i. page_items list (call_params q perPage i)) [1..<Suc k])),
           map (call_params q perPage) [1..<Suc k])"
proof -
  obtain ys where ys: "list (q\<lparr> per_page := Some perPage, page := Some (int k) \<rparr>) = Inr ys"
      "int (length ys) < perPage"
    using assms(3) by (auto simp: call_params_def)
  have full: "\<forall>i. 1 \<le> i \<and> i < k \<longrightarrow>
             (\<exists>xs. list (q\<lparr> per_page := Some perPage, page := Some (int i) \<rparr>) = Inr xs \<and>
                   \<not> int (length xs) < perPage)"
    using assms(2) by (auto simp: call_params_def not_less)
  have "getAll_loop list q perPage [] (int 1) [] =
     Some (Inr ([] @ concat (map (\<lambda>i. page_items list (q\<lparr> per_page := Some perPage, page := Some (int i) \<rparr>)) [1..<Suc k])),
           [] @ map (\<lambda>i. q\<lparr> per_page := Some perPage, page := Some (int i) \<rparr>) [1..<Suc k])"
    using full ys assms(1) by (intro getAll_loop_pages) auto
  then show ?thesis
    by (simp add: call_params_def[abs_def])
qed

text \<open>
  C4: \<open>getAll\<close> and \<open>listAll\<close> ask for the pages 1, 2, 3, \<dots> with the requested page
  size, and when the pages before page \<open>k\<close> are full and page \<open>k\<close> is the first with
  fewer items than the page size, they return after exactly \<open>k\<close> calls with the items of
  the pages 1 to \<open>k\<close> in order. So three pages of 100, 100 and 50 items give 250 items
  after 3 calls, one page of 25 items gives them after 1 call, and a last page that is
  exactly full is followed by one more call, for the empty page after it.
\<close>

theorem paginator_stops_at_first_short_page:
  assumes "1 \<le> k"
    and "\<forall>i. 1 \<le> i \<and> i < k \<longrightarrow>
           (\<exists>xs. list (call_params q perPage i) = Inr xs \<and> perPage \<le> int (length xs))"
    and "\<exists>ys. list (call_params q perPage k) = Inr ys \<and> int (length ys) < perPage"
  shows
    "(q = \<lparr> lp_status = (if (case status_arg of None \<Rightarrow> Publish | Some st \<Rightarrow> st) = Any then None
                          else Some (case status_arg of None \<Rightarrow> Publish | Some st \<Rightarrow> st)),
            per_page = None, page = None \<rparr> \<and>
      perPage = (case perPage_arg of None \<Rightarrow> 100 | Some n \<Rightarrow> n)
        \<longrightarrow> getAll list status_arg perPage_arg =
              Some (Inr (concat (map (\<lambda>i. page_items list (call_params q perPage i)) [1..<Suc k])),
                    map (call_params q perPage) [1..<Suc k])) \<and>
     (q = (case params_arg of
             None \<Rightarrow> \<lparr> lp_status = None, per_page = None, page = None \<rparr>
           | Some ps \<Rightarrow> ps) \<and>
      perPage = (case per_page q of None \<Rightarrow> 100 | Some n \<Rightarrow> n)
        \<longrightarrow> listAll list params_arg =
              Some (Inr (concat (map (\<lambda>i. page_items list (call_params q perPage i)) [1..<Suc k])),
                    map (call_params q perPage) [1..<Suc k])) \<and>
     length (map (call_params q perPage) [1..<Suc k]) = k \<and>
     map page (map (call_params q perPage) [1..<Suc k]) = map (\<lambda>i. Some (int i)) [1..<Suc k]"
proof -
  note loop = getAll_loop_from_first[OF assms]
  have a: "getAll list status_arg perPage_arg =
              Some (Inr (concat (map (\<lambda>i. page_items list (call_params q perPage i)) [1..<Suc k])),
                    map (call_params q perPage) [1..<Suc k])"
    if "q = \<lparr> lp_status = (if (case status_arg of None \<Rightarrow> Publish | Some st \<Rightarrow> st) = Any then None
                          else Some (case status_arg of None \<Rightarrow> Publish | Some st \<Rightarrow> st)),
            per_page = None, page = None \<rparr>"
      and "perPage = (case perPage_arg of None \<Rightarrow> 100 | Some n \<Rightarrow> n)"
    using loop unfolding that getAll_def Let_def .
  have b: "listAll list params_arg =
              Some (Inr (concat (map (\<lambda>i. page_items list (call_params q perPage i)) [1..<Suc k])),
                    map (call_params q perPage) [1..<Suc k])"
    if "q = (case params_arg of
             None \<Rightarrow> \<lparr> lp_status = None, per_page = None, page = None \<rparr>
           | Some ps \<Rightarrow> ps)"
      and "perPage = (case per_page q of None \<Rightarrow> 100 | Some n \<Rightarrow> n)"
    using loop that unfolding listAll_def Let_def by simp
  have c: "length (map (call_params q perPage) [1..<Suc k]) = k"
    by simp
  have d: "map page (map (call_params q perPage) [1..<Suc k]) = map (\<lambda>i. Some (int i)) [1..<Suc k]"
    by (simp add: call_params_def)
  from a b c d show ?thesis by blast
qed

theorem paginator_stops_at_first_short_page_witness:
  "getAll (store_of 250) None None =
     Some (Inr [0..<250],
           [\<lparr> lp_status = Some Publish, per_page = Some 100, page = Some 1 \<rparr>,
            \<lparr> lp_status = Some Publish, per_page = Some 100, page = Some 2 \<rparr>,
            \<lparr> lp_status = Some Publish, per_page = Some 100, page = Some 3 \<rparr>]) \<and>
   listAll (store_of 25) None =
     Some (Inr [0..<25], [\<lparr> lp_status = None, per_page = Some 100, page = Some 1 \<rparr>]) \<and>
   getAll (store_of 200) None None =
     Some (Inr [0..<200],
           [\<lparr> lp_status = Some Publish, per_page = Some 100, page = Some 1 \<rparr>,
            \<lparr> lp_status = Some Publish, per_page = Some 100, page = Some 2 \<rparr>,
            \<lparr> lp_status = Some Publish, per_page = Some 100, page = Some 3 \<rparr>])"
proof -
  let ?q = "\<lparr> lp_status = Some Publish, per_page = None, page = None \<rparr>"
  let ?r = "\<lparr> lp_status = None, per_page = None, page = None \<rparr>"
  have up3: "[1..<Suc 3] = [1, 2, 3]" and up1: "[1..<Suc 1] = [1]"
    by (simp_all add: upt_rec)
  have k3: "(1::nat) \<le> 3" and k1: "(1::nat) \<le> 1"
    by simp_all
  have qa: "?q = \<lparr> lp_status = (if (case None of None \<Rightarrow> Publish | Some st \<Rightarrow> st) = Any then None
                          else Some (case None of None \<Rightarrow> Publish | Some st \<Rightarrow> st)),
            per_page = None, page = None \<rparr> \<and>
      (100::int) = (case None of None \<Rightarrow> 100 | Some n \<Rightarrow> n)"
    by simp
  have ra: "?r = (case None of
             None \<Rightarrow> \<lparr> lp_status = None, per_page = None, page = None \<rparr>
           | Some ps \<Rightarrow> ps) \<and>
      (100::int) = (case per_page ?r of None \<Rightarrow> 100 | Some n \<Rightarrow> n)"
    by simp

  have p1: "store_of 250 (call_params ?q 100 1) = Inr [0..<100]"
    and p2: "store_of 250 (call_params ?q 100 2) = Inr [100..<200]"
    and p3: "store_of 250 (call_params ?q 100 3) = Inr [200..<250]"
    by code_simp+
  have full: "\<forall>i. 1 \<le> i \<and> i < 3 \<longrightarrow>
           (\<exists>xs. store_of 250 (call_params ?q 100 i) = Inr xs \<and> 100 \<le> int (length xs))"
  proof (intro allI impI)
    fix i :: nat assume "1 \<le> i \<and> i < 3"
    then have "i = 1 \<or> i = 2" by auto
    then show "\<exists>xs. store_of 250 (call_params ?q 100 i) = Inr xs \<and> 100 \<le> int (length xs)"
      using p1 p2 by auto
  qed
  have short: "\<exists>ys. store_of 250 (call_params ?q 100 3) = Inr ys \<and> int (length ys) < 100"
    using p3 by simp
  have items: "concat (map (\<lambda>i. page_items (store_of 250) (call_params ?q 100 i)) [1, 2, 3]) = [0..<250]"
    by code_simp
  have w1: "getAll (store_of 250) None None =
     Some (Inr (concat (map (\<lambda>i. page_items (store_of 250) (call_params ?q 100 i)) [1..<Suc 3])),
           map (call_params ?q 100) [1..<Suc 3])"
    using paginator_stops_at_first_short_page[OF k3 full short, of None None] qa by blast

  have s1: "store_of 25 (call_params ?r 100 1) = Inr [0..<25]"
    by code_simp
  have full': "\<forall>i. 1 \<le> i \<and> i < 1 \<longrightarrow>
           (\<exists>xs. store_of 25 (call_params ?r 100 i) = Inr xs \<and> 100 \<le> int (length xs))"
    by simp
  have short': "\<exists>ys. store_of 25 (call_params ?r 100 1) = Inr ys \<and> int (length ys) < 100"
    using s1 by simp
  have items': "concat (map (\<lambda>i. page_items (store_of 25) (call_params ?r 100 i)) [1]) = [0..<25]"
    by code_simp
  have w2: "listAll (store_of 25) None =
     Some (Inr (concat (map (\<lambda>i. page_items (store_of 25) (call_params ?r 100 i)) [1..<Suc 1])),
           map (call_params ?r 100) [1..<Suc 1])"
    using paginator_stops_at_first_short_page[OF k1 full' short', where params_arg = None] ra by blast

  have e1: "store_of 200 (call_params ?q 100 1) = Inr [0..<100]"
    and e2: "store_of 200 (call_params ?q 100 2) = Inr [100..<200]"
    and e3: "store_of 200 (call_params ?q 100 3) = Inr []"
    by code_simp+
  have full'': "\<forall>i. 1 \<le> i \<and> i < 3 \<longrightarrow>
           (\<exists>xs. store_of 200 (call_params ?q 100 i) = Inr xs \<and> 100 \<le> int (length xs))"
  proof (intro allI impI)
    fix i :: nat assume "1 \<le> i \<and> i < 3"
    then have "i = 1 \<or> i = 2" by auto
    then show "\<exists>xs. store_of 200 (call_params ?q 100 i) = Inr xs \<and> 100 \<le> int (length xs)"
      using e1 e2 by auto
  qed
  have short'': "\<exists>ys. store_of 200 (call_params ?q 100 3) = Inr ys \<and> int (length ys) < 100"
    using e3 by simp
  have items'': "concat (map (\<lambda>i. page_items (store_of 200) (call_params ?q 100 i)) [1, 2, 3]) = [0..<200]"
    by code_simp
  have w3: "getAll (store_of 200) None None =
     Some (Inr (concat (map (\<lambda>i. page_items (store_of 200) (call_params ?q 100 i)) [1..<Suc 3])),
           map (call_params ?q 100) [1..<Suc 3])"
    using paginator_stops_at_first_short_page[OF k3 full'' short'', of None None] qa by blast
  show ?thesis
    unfolding w1 w2 w3 up3 up1 items items' items'' by (simp add: call_params_def)
qed

section \<open>The batch chunker\<close>

lemma slice_100: "slice updates i (i + BATCH_SIZE) = take 100 (drop i updates)"
  by (simp add: slice_def BATCH_SIZE_def)

lemma batches_loop_concat:
  "concat (batches_loop updates i batches) = concat batches @ drop i updates"
proof (induction updates i batches rule: batches_loop.induct)
  case (1 updates i batches)
  show ?case
  proof (cases "i < length updates")
    case True
    have "take 100 (drop i updates) @ drop (i + BATCH_SIZE) updates = drop i updates"
      by (metis BATCH_SIZE_def add.commute append_take_drop_id drop_drop)
    then show ?thesis
      using True "1.IH"[OF True] by (subst batches_loop.simps) (simp add: slice_100)
  next
    case False
    then show ?thesis by (subst batches_loop.simps) simp
  qed
qed

lemma batches_loop_bounds:
  "set (batches_loop updates i batches) \<subseteq> set batches \<union> {b. b \<noteq> [] \<and> length b \<le> 100}"
proof (induction updates i batches rule: batches_loop.induct)
  case (1 updates i batches)
  show ?case
  proof (cases "i < length updates")
    case True
    have "take 100 (drop i updates) \<noteq> []" using True by simp
    then show ?thesis
      using True "1.IH"[OF True] by (subst batches_loop.simps) (auto simp: slice_100)
  next
    case False
    then show ?thesis by (subst batches_loop.simps) simp
  qed
qed

lemma chunk_lengths_step: "0 < m \<Longrightarrow> chunk_lengths m = min 100 m # chunk_lengths (m - 100)"
proof (cases "100 \<le> m")
  case True
  then have "m div 100 = Suc ((m - 100) div 100)" "m mod 100 = (m - 100) mod 100"
    by (simp_all add: le_div_geq le_mod_geq)
  then show ?thesis using True by (simp add: chunk_lengths_def)
next
  case False
  assume "0 < m"
  with False show ?thesis by (simp add: chunk_lengths_def)
qed

lemma batches_loop_lengths:
  "map length (batches_loop updates i batches) =
     map length batches @ chunk_lengths (length updates - i)"
proof (induction updates i batches rule: batches_loop.induct)
  case (1 updates i batches)
  show ?case
  proof (cases "i < length updates")
    case True
    then have "chunk_lengths (length updates - i) =
        min 100 (length updates - i) # chunk_lengths (length updates - i - 100)"
      by (intro chunk_lengths_step) simp
    then show ?thesis
      using True "1.IH"[OF True]
      by (subst batches_loop.simps) (simp add: slice_def BATCH_SIZE_def min.commute)
  next
    case False
    then show ?thesis by (subst batches_loop.simps) (simp add: chunk_lengths_def)
  qed
qed



lemma submit_loop_step_fail:
  assumes "i < length batches" and "post_batch s (batchRequest (batches ! i)) = (Inl e, s')"
  shows "submit_loop post_batch env batches i allResults s trace =
     (Inl e, s', trace @ [Posted (batchRequest (batches ! i)) (Inl e)])"
  using assms by (subst submit_loop.simps) simp

lemma submit_loop_step_ok:
  assumes "i < length batches" and "post_batch s (batchRequest (batches ! i)) = (Inr res, s')"
  shows "submit_loop post_batch env batches i allResults s trace =
     submit_loop post_batch env batches (i + 1)
       (case update res of None \<Rightarrow> allResults | Some r \<Rightarrow> allResults @ r) s'
       (trace @ [Posted (batchRequest (batches ! i)) (Inr res)] @
          (if int i < int (length batches) - 1 then [Waited (delayMs env)] else []))"
  using assms by (subst submit_loop.simps) simp

lemma submit_loop_done:
  assumes "\<not> i < length batches"
  shows "submit_loop post_batch env batches i allResults s trace =
     (Inr \<lparr> update = Some allResults \<rparr>, s, trace)"
  using assms by (subst submit_loop.simps) simp


lemma batchUpdate_nonempty:
  "updates \<noteq> [] \<Longrightarrow>
   batchUpdate post_batch env updates s =
     submit_loop post_batch env (batches_loop updates 0 []) 0 [] s []"
  by (simp add: batchUpdate_def)

lemma batchUpdate_empty:
  "batchUpdate post_batch env [] s = (Inr \<lparr> update = Some [] \<rparr>, s, [])"
  by (simp add: batchUpdate_def)

lemma batches_loop_empty: "batches_loop [] 0 [] = []"
  by (subst batches_loop.simps) simp

lemma post_at:
  "post_batch (post_state post_batch s reqs n) (reqs ! n) =
     (post_outcome post_batch s reqs n, post_state post_batch s reqs (Suc n))"
  by (simp add: post_outcome_def)

lemma submit_loop_all:
  assumes "\<forall>i. a \<le> i \<and> i < length batches \<longrightarrow>
             \<not> isl (post_outcome post_batch s0 (map batchRequest batches) i)"
    and "a \<le> length batches"
  shows "submit_loop post_batch env batches a acc
           (post_state post_batch s0 (map batchRequest batches) a) tr =
     (Inr \<lparr> update = Some (acc @ concat (map (\<lambda>i. updated_of
                 (post_outcome post_batch s0 (map batchRequest batches) i)) [a..<length batches])) \<rparr>,
      post_state post_batch s0 (map batchRequest batches) (length batches),
      tr @ concat (map (submission post_batch s0 (map batchRequest batches) env)
                     [a..<length batches]))"
  using assms
proof (induction "length batches - a" arbitrary: a acc tr)
  case 0
  then have "\<not> a < length batches" and an: "a = length batches" by simp_all
  then show ?case by (simp add: submit_loop_done del: post_state.simps)
next
  case (Suc d)
  let ?reqs = "map batchRequest batches"
  from Suc.hyps(2) have lt: "a < length batches" by simp
  then have "\<not> isl (post_outcome post_batch s0 ?reqs a)"
    using Suc.prems(1) by simp
  then obtain res where res: "post_outcome post_batch s0 ?reqs a = Inr res"
    by (cases "post_outcome post_batch s0 ?reqs a") auto
  have ra: "?reqs ! a = batchRequest (batches ! a)"
    using lt by simp
  have p: "post_batch (post_state post_batch s0 ?reqs a) (batchRequest (batches ! a)) =
      (Inr res, post_state post_batch s0 ?reqs (Suc a))"
    using post_at[of post_batch s0 ?reqs a] unfolding ra res .
  have up: "[a..<length batches] = a # [Suc a..<length batches]"
    using lt by (simp add: upt_conv_Cons)
  have w: "(if int a < int (length batches) - 1 then [Waited (delayMs env)] else []) =
      (if Suc a < length ?reqs then [Waited (delayMs env)] else [])"
    by auto
  have sub: "submission post_batch s0 ?reqs env a =
      [Posted (batchRequest (batches ! a)) (Inr res)] @
      (if int a < int (length batches) - 1 then [Waited (delayMs env)] else [])"
    unfolding w by (simp add: submission_def ra res)
  have IH: "submit_loop post_batch env batches (Suc a) acc'
           (post_state post_batch s0 ?reqs (Suc a)) tr' =
     (Inr \<lparr> update = Some (acc' @ concat (map (\<lambda>i. updated_of
                 (post_outcome post_batch s0 ?reqs i)) [Suc a..<length batches])) \<rparr>,
      post_state post_batch s0 ?reqs (length batches),
      tr' @ concat (map (submission post_batch s0 ?reqs env) [Suc a..<length batches]))"
    for acc' tr'
    using Suc.hyps(1)[of "Suc a" acc' tr'] Suc.hyps(2) Suc.prems lt by simp
  have step: "submit_loop post_batch env batches a acc (post_state post_batch s0 ?reqs a) tr =
      submit_loop post_batch env batches (a + 1)
       (case update res of None \<Rightarrow> acc | Some r \<Rightarrow> acc @ r)
       (post_state post_batch s0 ?reqs (Suc a))
       (tr @ [Posted (batchRequest (batches ! a)) (Inr res)] @
          (if int a < int (length batches) - 1 then [Waited (delayMs env)] else []))"
    by (rule submit_loop_step_ok[where post_batch = post_batch, OF lt p])
  have acc: "(case update res of None \<Rightarrow> acc | Some r \<Rightarrow> acc @ r) = acc @ updated_of (Inr res)"
    by (simp split: option.splits)
  have suc: "a + 1 = Suc a" by simp
  show ?case
    unfolding step suc IH up acc
    by (simp add: sub res del: post_state.simps)
qed

lemma submit_loop_fails_at:
  assumes "\<forall>i. a \<le> i \<and> i < k \<longrightarrow>
             \<not> isl (post_outcome post_batch s0 (map batchRequest batches) i)"
    and "post_outcome post_batch s0 (map batchRequest batches) k = Inl e"
    and "a \<le> k" and "k < length batches"
  shows "submit_loop post_batch env batches a acc
           (post_state post_batch s0 (map batchRequest batches) a) tr =
     (Inl e, post_state post_batch s0 (map batchRequest batches) (Suc k),
      tr @ concat (map (submission post_batch s0 (map batchRequest batches) env) [a..<k]) @
        [Posted (map batchRequest batches ! k) (Inl e)])"
  using assms
proof (induction "k - a" arbitrary: a acc tr)
  case 0
  let ?reqs = "map batchRequest batches"
  from 0 have ak: "a = k" by simp
  have ra: "?reqs ! k = batchRequest (batches ! k)"
    using "0.prems"(4) by simp
  have p: "post_batch (post_state post_batch s0 ?reqs k) (batchRequest (batches ! k)) =
      (Inl e, post_state post_batch s0 ?reqs (Suc k))"
    using post_at[of post_batch s0 ?reqs k] unfolding ra "0.prems"(2) .
  show ?case
    unfolding ak
    using submit_loop_step_fail[where post_batch = post_batch, OF "0.prems"(4) p]
    by (simp add: ra del: post_state.simps)
next
  case (Suc d)
  let ?reqs = "map batchRequest batches"
  from Suc.hyps(2) have lt: "a < k" by simp
  then have ltn: "a < length batches" using Suc.prems(4) by simp
  have "\<not> isl (post_outcome post_batch s0 ?reqs a)"
    using Suc.prems(1) lt by simp
  then obtain res where res: "post_outcome post_batch s0 ?reqs a = Inr res"
    by (cases "post_outcome post_batch s0 ?reqs a") auto
  have ra: "?reqs ! a = batchRequest (batches ! a)"
    using ltn by simp
  have p: "post_batch (post_state post_batch s0 ?reqs a) (batchRequest (batches ! a)) =
      (Inr res, post_state post_batch s0 ?reqs (Suc a))"
    using post_at[of post_batch s0 ?reqs a] unfolding ra res .
  have up: "[a..<k] = a # [Suc a..<k]"
    using lt by (simp add: upt_conv_Cons)
  have w: "(if int a < int (length batches) - 1 then [Waited (delayMs env)] else []) =
      (if Suc a < length ?reqs then [Waited (delayMs env)] else [])"
    by auto
  have sub: "submission post_batch s0 ?reqs env a =
      [Posted (batchRequest (batches ! a)) (Inr res)] @
      (if int a < int (length batches) - 1 then [Waited (delayMs env)] else [])"
    unfolding w by (simp add: submission_def ra res)
  have IH: "submit_loop post_batch env batches (Suc a) acc'
           (post_state post_batch s0 ?reqs (Suc a)) tr' =
     (Inl e, post_state post_batch s0 ?reqs (Suc k),
      tr' @ concat (map (submission post_batch s0 ?reqs env) [Suc a..<k]) @
        [Posted (?reqs ! k) (Inl e)])"
    for acc' tr'
    using Suc.hyps(1)[of "Suc a" acc' tr'] Suc.hyps(2) Suc.prems lt by simp
  have step: "submit_loop post_batch env batches a acc (post_state post_batch s0 ?reqs a) tr =
      submit_loop post_batch env batches (a + 1)
       (case update res of None \<Rightarrow> acc | Some r \<Rightarrow> acc @ r)
       (post_state post_batch s0 ?reqs (Suc a))
       (tr @ [Posted (batchRequest (batches ! a)) (Inr res)] @
          (if int a < int (length batches) - 1 then [Waited (delayMs env)] else []))"
    by (rule submit_loop_step_ok[where post_batch = post_batch, OF ltn p])
  have suc: "a + 1 = Suc a" by simp
  show ?case
    unfolding step suc IH up
    by (simp add: sub del: post_state.simps)
qed


text \<open>
  C5: the chunks are consecutive and in order (their concatenation is the input), each
  holds between 1 and 100 items, and their lengths are 100, \<dots>, 100 and then the rest,
  so 250 items give chunks of 100, 100 and 50. The requests of the chunks are submitted
  to the store one after the other, in order, each in the state the one before has left:
  when no submission fails, every chunk is submitted and the result holds the updated
  products of the responses, in the order of the chunks; when submission \<open>k\<close> is the
  first to fail, what it throws is thrown and no later chunk is submitted. An empty
  input is answered with an empty result, without any submission.
\<close>

theorem batchUpdate_chunks:
  "concat (batches_loop updates 0 []) = updates \<and>
   map length (batches_loop updates 0 []) =
     replicate (length updates div 100) 100 @
     (if length updates mod 100 = 0 then [] else [length updates mod 100]) \<and>
   (length updates = 250 \<longrightarrow> map length (batches_loop updates 0 []) = [100, 100, 50]) \<and>
   (\<forall>b \<in> set (batches_loop updates 0 []). b \<noteq> [] \<and> length b \<le> 100) \<and>
   chunk_requests updates = map batchRequest (batches_loop updates 0 []) \<and>
   ((\<forall>i < length (chunk_requests updates).
        \<not> isl (post_outcome post_batch s (chunk_requests updates) i)) \<longrightarrow>
      batchUpdate post_batch env updates s =
        (Inr \<lparr> update = Some (concat (map (\<lambda>i. updated_of
                    (post_outcome post_batch s (chunk_requests updates) i))
                  [0..<length (chunk_requests updates)])) \<rparr>,
         post_state post_batch s (chunk_requests updates) (length (chunk_requests updates)),
         concat (map (submission post_batch s (chunk_requests updates) env)
                   [0..<length (chunk_requests updates)]))) \<and>
   (\<forall>k e. k < length (chunk_requests updates) \<and>
          (\<forall>i < k. \<not> isl (post_outcome post_batch s (chunk_requests updates) i)) \<and>
          post_outcome post_batch s (chunk_requests updates) k = Inl e \<longrightarrow>
      batchUpdate post_batch env updates s =
        (Inl e, post_state post_batch s (chunk_requests updates) (Suc k),
         concat (map (submission post_batch s (chunk_requests updates) env) [0..<k]) @
           [Posted (chunk_requests updates ! k) (Inl e)])) \<and>
   batchUpdate post_batch env [] s = (Inr \<lparr> update = Some [] \<rparr>, s, [])"
proof -
  let ?bs = "batches_loop updates 0 []"
  have c: "concat ?bs = updates"
    by (simp add: batches_loop_concat)
  have l: "map length ?bs =
     replicate (length updates div 100) 100 @
     (if length updates mod 100 = 0 then [] else [length updates mod 100])"
    by (simp add: batches_loop_lengths chunk_lengths_def)
  have l250: "map length ?bs = [100, 100, 50]" if "length updates = 250"
  proof -
    have "replicate (250 div 100) (100::nat) = [100, 100]"
      by (simp add: numeral_2_eq_2)
    then show ?thesis unfolding l that by simp
  qed
  have b: "\<forall>b \<in> set ?bs. b \<noteq> [] \<and> length b \<le> 100"
    using batches_loop_bounds[of updates 0 "[]"] by auto
  have q: "chunk_requests updates = map batchRequest ?bs"
    by (simp add: chunk_requests_def)
  have ok: "batchUpdate post_batch env updates s =
        (Inr \<lparr> update = Some (concat (map (\<lambda>i. updated_of
                    (post_outcome post_batch s (chunk_requests updates) i))
                  [0..<length (chunk_requests updates)])) \<rparr>,
         post_state post_batch s (chunk_requests updates) (length (chunk_requests updates)),
         concat (map (submission post_batch s (chunk_requests updates) env)
                   [0..<length (chunk_requests updates)]))"
    if h: "\<forall>i < length (chunk_requests updates).
        \<not> isl (post_outcome post_batch s (chunk_requests updates) i)"
  proof (cases "updates = []")
    case True
    then show ?thesis by (simp add: batchUpdate_empty chunk_requests_def batches_loop_empty)
  next
    case False
    have "submit_loop post_batch env ?bs 0 [] (post_state post_batch s (map batchRequest ?bs) 0) [] =
      (Inr \<lparr> update = Some ([] @ concat (map (\<lambda>i. updated_of
                 (post_outcome post_batch s (map batchRequest ?bs) i)) [0..<length ?bs])) \<rparr>,
       post_state post_batch s (map batchRequest ?bs) (length ?bs),
       [] @ concat (map (submission post_batch s (map batchRequest ?bs) env) [0..<length ?bs]))"
      using h unfolding q by (intro submit_loop_all) simp_all
    then show ?thesis
      using False unfolding q by (simp add: batchUpdate_nonempty del: post_state.simps(2))
  qed
  have bad: "batchUpdate post_batch env updates s =
        (Inl e, post_state post_batch s (chunk_requests updates) (Suc k),
         concat (map (submission post_batch s (chunk_requests updates) env) [0..<k]) @
           [Posted (chunk_requests updates ! k) (Inl e)])"
    if k: "k < length (chunk_requests updates)"
      and h: "\<forall>i < k. \<not> isl (post_outcome post_batch s (chunk_requests updates) i)"
      and e: "post_outcome post_batch s (chunk_requests updates) k = Inl e" for k e
  proof -
    have ne: "updates \<noteq> []"
      using k by (auto simp: chunk_requests_def batches_loop_empty)
    have "submit_loop post_batch env ?bs 0 [] (post_state post_batch s (map batchRequest ?bs) 0) [] =
      (Inl e, post_state post_batch s (map batchRequest ?bs) (Suc k),
       [] @ concat (map (submission post_batch s (map batchRequest ?bs) env) [0..<k]) @
         [Posted (map batchRequest ?bs ! k) (Inl e)])"
      using h e k unfolding q by (intro submit_loop_fails_at) simp_all
    then show ?thesis
      using ne unfolding q by (simp add: batchUpdate_nonempty del: post_state.simps(2))
  qed
  from c l l250 b q ok bad batchUpdate_empty[of post_batch env s] show ?thesis by blast
qed

theorem batchUpdate_chunks_witness:
  "length (stock_updates 250) = 250 \<and>
   map length (batches_loop (stock_updates 250) 0 []) = [100, 100, 50] \<and>
   list_all (\<lambda>b. b \<noteq> [] \<and> length b \<le> 100) (batches_loop (stock_updates 250) 0 []) \<and>
   fst (batchUpdate echo_store None (stock_updates 250) 0) =
     Inr \<lparr> update = Some (map int [0..<250]) \<rparr> \<and>
   fst (snd (batchUpdate echo_store None (stock_updates 250) 0)) = 3 \<and>
   posted_requests (snd (snd (batchUpdate echo_store None (stock_updates 250) 0))) =
     [batchRequest (take 100 (stock_updates 250)),
      batchRequest (take 100 (drop 100 (stock_updates 250))),
      batchRequest (drop 200 (stock_updates 250))] \<and>
   batchUpdate failing_store None (stock_updates 250) 0 =
     (Inl (JsError ''Error'' ''boom''), 2,
      [Posted (batchRequest (take 100 (stock_updates 250)))
         (Inr \<lparr> update = Some (map int [0..<100]) \<rparr>),
       Waited (Num 100),
       Posted (batchRequest (take 100 (drop 100 (stock_updates 250))))
         (Inl (JsError ''Error'' ''boom''))])"
proof -
  let ?u = "stock_updates 250"
  let ?q = "chunk_requests ?u"
  have len: "length ?u = 250"
    by (simp add: stock_updates_def)
  note T = batchUpdate_chunks[of ?u echo_store 0 None]
  have a: "map length (batches_loop ?u 0 []) = [100, 100, 50]"
    using T len by blast
  have c: "list_all (\<lambda>b. b \<noteq> [] \<and> length b \<le> 100) (batches_loop ?u 0 [])"
    unfolding list_all_iff using T by blast
  have q: "?q = map batchRequest (batches_loop ?u 0 [])"
    using T by blast
  have n: "length ?q = 3"
    using arg_cong[OF a, of length] unfolding q by simp
  have never: "\<forall>i < length ?q. \<not> isl (post_outcome echo_store 0 ?q i)"
    by (simp add: post_outcome_def echo_store_def)
  have run: "batchUpdate echo_store None ?u 0 =
        (Inr \<lparr> update = Some (concat (map (\<lambda>i. updated_of (post_outcome echo_store 0 ?q i))
                  [0..<length ?q])) \<rparr>,
         post_state echo_store 0 ?q (length ?q),
         concat (map (submission echo_store 0 ?q None) [0..<length ?q]))"
    using T never by blast
  have up3: "[0..<3] = [0, 1, 2]"
    by (simp add: upt_rec)
  have v1: "concat (map (\<lambda>i. updated_of (post_outcome echo_store 0 ?q i)) [0, 1, 2]) = map int [0..<250]"
    by code_simp
  have v2: "post_state echo_store 0 ?q 3 = 3"
    by code_simp
  have v3: "posted_requests (concat (map (submission echo_store 0 ?q None) [0, 1, 2])) =
     [batchRequest (take 100 ?u), batchRequest (take 100 (drop 100 ?u)), batchRequest (drop 200 ?u)]"
    by code_simp
  have r1: "fst (batchUpdate echo_store None ?u 0) = Inr \<lparr> update = Some (map int [0..<250]) \<rparr>"
    unfolding run n up3 v1 by simp
  have r2: "fst (snd (batchUpdate echo_store None ?u 0)) = 3"
    unfolding run n v2 by simp
  have r3: "posted_requests (snd (snd (batchUpdate echo_store None ?u 0))) =
     [batchRequest (take 100 ?u), batchRequest (take 100 (drop 100 ?u)), batchRequest (drop 200 ?u)]"
    unfolding run n up3 using v3 by simp
  have k: "(1::nat) < length ?q"
    using n by simp
  have f0: "\<forall>i < (1::nat). \<not> isl (post_outcome failing_store 0 ?q i)"
    by (simp add: post_outcome_def failing_store_def)
  have f1: "post_outcome failing_store 0 ?q 1 = Inl (JsError ''Error'' ''boom'')"
    by (simp add: post_outcome_def failing_store_def)
  have fail: "batchUpdate failing_store None ?u 0 =
        (Inl (JsError ''Error'' ''boom''), post_state failing_store 0 ?q (Suc 1),
         concat (map (submission failing_store 0 ?q None) [0..<1]) @
           [Posted (?q ! 1) (Inl (JsError ''Error'' ''boom''))])"
    using batchUpdate_chunks[of ?u failing_store 0 None] k f0 f1 by blast
  have w1: "post_state failing_store 0 ?q (Suc 1) = 2"
    by code_simp
  have w2: "concat (map (submission failing_store 0 ?q None) [0..<1]) @
           [Posted (?q ! 1) (Inl (JsError ''Error'' ''boom''))] =
      [Posted (batchRequest (take 100 ?u)) (Inr \<lparr> update = Some (map int [0..<100]) \<rparr>),
       Waited (Num 100),
       Posted (batchRequest (take 100 (drop 100 ?u))) (Inl (JsError ''Error'' ''boom''))]"
    by code_simp
  have r4: "batchUpdate failing_store None ?u 0 =
     (Inl (JsError ''Error'' ''boom''), 2,
      [Posted (batchRequest (take 100 ?u)) (Inr \<lparr> update = Some (map int [0..<100]) \<rparr>),
       Waited (Num 100),
       Posted (batchRequest (take 100 (drop 100 ?u))) (Inl (JsError ''Error'' ''boom''))])"
    unfolding fail w1 w2 ..
  from len a c r1 r2 r3 r4 show ?thesis by blast
qed

section \<open>What \<open>batchUpdate\<close> puts on the wire\<close>








end
